theory Spec2Isabelle
  imports Complex_Main
begin

section \<open>DGS Korpus: acquisition of one catalog row\<close>

text \<open>
  A cell of the \<open>URLs\<close> part of the catalog, as \<open>scrape_table\<close> builds it: \<open>None\<close>
  when the table cell has no link, a \<open>str\<close> when it has one, a \<open>list\<close> of \<open>str\<close> when
  it has several. \<open>COther\<close> stands for a value of any other Python type (a float, or the
  \<open>Series\<close> that \<open>row[col]\<close> returns when the label \<open>col\<close> occurs twice in the index).
\<close>

datatype cell = CNone | CStr string | CList "string list" | COther

text \<open>
  What one pass through the \<open>try\<close> block of \<open>download_file\<close> does: it runs to the
  \<open>return save_path\<close>, or raises a \<open>requests.exceptions.RequestException\<close> (with its
  text), or raises an exception of another class (an \<open>OSError\<close> of \<open>open\<close>, say), which
  the \<open>except\<close> clause does not catch.
\<close>

datatype outcome = Fetched | RequestException string | OtherException string

datatype exn = TypeError | KeyError string | ValueError | IndexError | EOFError | Uncaught string

text \<open>The calls of \<open>logging.warning\<close>, by the format string they use.\<close>

datatype warning =
    AttemptFailed string int int string
  | GaveUp string int
  | SomeFailed "string list" int

text \<open>
  The world of the acquisition: \<open>net w url n\<close> is what the attempt on \<open>url\<close> does when
  \<open>n\<close> attempts have been made before it (the verification policy \<open>ca_cert\<close> is part of
  this oracle); \<open>requests\<close> lists the attempts made so far and \<open>warnings\<close> the warnings
  logged so far. The file system is not part of this world: \<open>create_directory\<close> and
  the file that a successful attempt writes leave no trace in it; \<open>create_directory\<close>
  is taken to succeed, and an error of the write is one of the exceptions that an attempt
  can raise.
\<close>

record world =
  net :: "string \<Rightarrow> nat \<Rightarrow> outcome"
  requests :: "string list"
  warnings :: "warning list"

text \<open>\<open>os.path.basename\<close> and \<open>os.path.join\<close> (of two components) on POSIX.\<close>

definition basename :: "string \<Rightarrow> string" where
  "basename p = rev (takeWhile (\<lambda>c. c \<noteq> CHR ''/'') (rev p))"

definition path_join :: "string \<Rightarrow> string \<Rightarrow> string" where
  "path_join a b =
     (if b \<noteq> [] \<and> hd b = CHR ''/'' then b
      else if a = [] \<or> last a = CHR ''/'' then a @ b
      else a @ ''/'' @ b)"

text \<open>
  \<open>download_file\<close>: the loop \<open>for attempt in range(max_retries)\<close>, entered at
  \<open>attempt\<close>. The result is \<open>Inr (Some save_path)\<close> for \<open>return save_path\<close>,
  \<open>Inr None\<close> for \<open>return None\<close> and \<open>Inl\<close> for an exception that leaves the function.
\<close>

function download_file_loop ::
  "int \<Rightarrow> string \<Rightarrow> string \<Rightarrow> int \<Rightarrow> world \<Rightarrow> (exn + string option) \<times> world" where
  "download_file_loop attempt url save_path max_retries w =
     (if attempt < max_retries then
        (let w1 = w\<lparr>requests := requests w @ [url]\<rparr> in
         case net w url (length (requests w)) of
           Fetched \<Rightarrow> (Inr (Some save_path), w1)
         | OtherException e \<Rightarrow> (Inl (Uncaught e), w1)
         | RequestException e \<Rightarrow>
             (let w2 = w1\<lparr>warnings := warnings w1 @
                          [AttemptFailed url (attempt + 1) max_retries e]\<rparr> in
              if attempt = max_retries - 1
              then (Inr None, w2\<lparr>warnings := warnings w2 @ [GaveUp url max_retries]\<rparr>)
              else download_file_loop (attempt + 1) url save_path max_retries w2))
      else (Inr None, w))"
  by pat_completeness auto

termination
  by (relation "measure (\<lambda>(attempt, url, save_path, max_retries, w). nat (max_retries - attempt))")
     auto

declare download_file_loop.simps [simp del]

definition download_file ::
  "string \<Rightarrow> string \<Rightarrow> int \<Rightarrow> world \<Rightarrow> (exn + string option) \<times> world" where
  "download_file url save_path max_retries w = download_file_loop 0 url save_path max_retries w"

text \<open>
  A value of the \<open>Paths\<close> part of the ledger: \<open>None\<close>, a file name, or a list with a
  file name or \<open>None\<close> at each position.
\<close>

datatype lval = LNone | LStr string | LList "string option list"

text \<open>Python's truth value of what \<open>download_file\<close> returned: a non-empty string.\<close>

definition truthy :: "string option \<Rightarrow> bool" where
  "truthy r = (case r of None \<Rightarrow> False | Some p \<Rightarrow> p \<noteq> [])"

text \<open>
  The inner loop \<open>for url in urls\<close> of the \<open>list\<close> branch, with the list \<open>paths\<close>
  built so far.
\<close>

fun download_list ::
  "string \<Rightarrow> int \<Rightarrow> string list \<Rightarrow> string option list \<Rightarrow> world \<Rightarrow>
   (exn + string option list) \<times> world" where
  "download_list row_dir max_retries [] paths w = (Inr paths, w)"
| "download_list row_dir max_retries (url # urls) paths w =
     (let filename = basename url;
          filepath = path_join row_dir filename
      in case download_file url filepath max_retries w of
           (Inl e, w1) \<Rightarrow> (Inl e, w1)
         | (Inr downloaded_file, w1) \<Rightarrow>
             download_list row_dir max_retries urls
               (paths @ [if truthy downloaded_file then Some filename else None]) w1)"

text \<open>
  The body of the loop \<open>for col in row.index\<close> on the value \<open>url = row[col]\<close>: the
  value stored under \<open>("Paths", col)\<close>, or the exception raised.
\<close>

fun download_cell :: "string \<Rightarrow> int \<Rightarrow> cell \<Rightarrow> world \<Rightarrow> (exn + lval) \<times> world" where
  "download_cell row_dir max_retries (CStr url) w =
     (let filename = basename url;
          filepath = path_join row_dir filename
      in case download_file url filepath max_retries w of
           (Inl e, w1) \<Rightarrow> (Inl e, w1)
         | (Inr downloaded_file, w1) \<Rightarrow>
             (Inr (if truthy downloaded_file then LStr filename else LNone),
              if \<not> truthy downloaded_file
              then w1\<lparr>warnings := warnings w1 @ [GaveUp url max_retries]\<rparr> else w1))"
| "download_cell row_dir max_retries (CList urls) w =
     (case download_list row_dir max_retries urls [] w of
        (Inl e, w1) \<Rightarrow> (Inl e, w1)
      | (Inr paths, w1) \<Rightarrow>
          (Inr (LList paths),
           if list_ex (\<lambda>file. file = None) paths
           then w1\<lparr>warnings := warnings w1 @ [SomeFailed urls max_retries]\<rparr> else w1))"
| "download_cell row_dir max_retries CNone w = (Inr LNone, w)"
| "download_cell row_dir max_retries COther w = (Inl TypeError, w)"

text \<open>
  A row of \<open>df["URLs"]\<close>: its \<open>name\<close> (the identifier) and its labelled values.
  \<open>row[col]\<close> is the value when the label occurs once; when it occurs several times
  pandas returns a \<open>Series\<close>, which is none of \<open>str\<close>, \<open>list\<close> and \<open>None\<close>.
\<close>

record series =
  name :: string
  items :: "(string \<times> cell) list"

definition row_get :: "series \<Rightarrow> string \<Rightarrow> cell" where
  "row_get row col =
     (case filter (\<lambda>kv. fst kv = col) (items row) of
        [kv] \<Rightarrow> snd kv
      | _ \<Rightarrow> COther)"

type_synonym ledger = "(string \<times> string) \<rightharpoonup> lval"

text \<open>The loop \<open>for col in row.index\<close> over the labels still to visit.\<close>

fun download_cols ::
  "series \<Rightarrow> string \<Rightarrow> int \<Rightarrow> string list \<Rightarrow> ledger \<Rightarrow> world \<Rightarrow> (exn + ledger) \<times> world" where
  "download_cols row row_dir max_retries [] filenames w = (Inr filenames, w)"
| "download_cols row row_dir max_retries (col # cols) filenames w =
     (case download_cell row_dir max_retries (row_get row col) w of
        (Inl e, w1) \<Rightarrow> (Inl e, w1)
      | (Inr v, w1) \<Rightarrow>
          download_cols row row_dir max_retries cols (filenames((''Paths'', col) \<mapsto> v)) w1)"

definition download_file_row :: "series \<Rightarrow> string \<Rightarrow> int \<Rightarrow> world \<Rightarrow> (exn + ledger) \<times> world" where
  "download_file_row row base_dir max_retries w =
     (let row_dir = path_join base_dir (name row);
          filenames = [(''Paths'', ''base_dir'') \<mapsto> LStr row_dir]
      in download_cols row row_dir max_retries (map fst (items row)) filenames w)"

text \<open>
  \<open>df["URLs"].progress_apply(download_file_row, args=(dgs_path, ca_cert), axis=1)\<close> in
  \<open>download_data\<close>: the rows in order, with the default \<open>max_retries = 3\<close>; nothing
  catches an exception of \<open>download_file_row\<close>, so the first one leaves the whole call.
\<close>

fun progress_apply :: "string \<Rightarrow> series list \<Rightarrow> world \<Rightarrow> (exn + ledger list) \<times> world" where
  "progress_apply dgs_path [] w = (Inr [], w)"
| "progress_apply dgs_path (row # rows) w =
     (case download_file_row row dgs_path 3 w of
        (Inl e, w1) \<Rightarrow> (Inl e, w1)
      | (Inr l, w1) \<Rightarrow>
          (case progress_apply dgs_path rows w1 of
             (Inl e, w2) \<Rightarrow> (Inl e, w2)
           | (Inr ls, w2) \<Rightarrow> (Inr (l # ls), w2)))"

text \<open>
  The shape of a ledger value against the catalog cell it mirrors: \<open>None\<close> for an absent
  link, the file name or \<open>None\<close> for one link, a list of the same length with the file
  name or \<open>None\<close> at each position for several links.
\<close>

fun shape_matches :: "cell \<Rightarrow> lval \<Rightarrow> bool" where
  "shape_matches CNone v = (v = LNone)"
| "shape_matches (CStr url) v = (v = LNone \<or> v = LStr (basename url))"
| "shape_matches (CList urls) v =
     (case v of
        LList paths \<Rightarrow> list_all2 (\<lambda>url p. p = None \<or> p = Some (basename url)) urls paths
      | _ \<Rightarrow> False)"
| "shape_matches COther v = False"

text \<open>
  A catalog entry as \<open>scrape_table\<close> and \<open>download_data\<close> build it: every label
  occurs once and every cell is \<open>None\<close>, a string or a list of strings.
\<close>

definition catalog_entry :: "series \<Rightarrow> bool" where
  "catalog_entry row \<longleftrightarrow>
     distinct (map fst (items row)) \<and> list_all (\<lambda>kv. snd kv \<noteq> COther) (items row)"

text \<open>Concrete rows and networks on which the theorems below are exercised.\<close>

definition example_row :: series where
  "example_row = \<lparr>name = ''a__0'', items =
     [(''ELAN'', CNone), (''Video A'', CStr ''http://h/x/a.mp4''),
      (''SRT'', CList [''http://h/1.srt'', ''http://h/2.srt''])]\<rparr>"

definition flaky_world :: world where
  "flaky_world = \<lparr>net = (\<lambda>u n. if n < 4 then RequestException ''timeout'' else Fetched),
     requests = [], warnings = []\<rparr>"

definition down_world :: world where
  "down_world = \<lparr>net = (\<lambda>u n. RequestException ''unreachable''), requests = [], warnings = []\<rparr>"

definition bad_row :: series where
  "bad_row = \<lparr>name = ''a__0'', items = [(''iLex'', COther)]\<rparr>"

definition good_row :: series where
  "good_row = \<lparr>name = ''b__0'', items = [(''iLex'', CStr ''http://h/b.ilex'')]\<rparr>"

definition up_world :: world where
  "up_world = \<lparr>net = (\<lambda>u n. Fetched), requests = [], warnings = []\<rparr>"

section \<open>DGS Korpus: metadata extraction\<close>

text \<open>
  A value of a row of \<open>df["Paths"]\<close> as \<open>read_csv\<close> and \<open>apply\<close> hand it to
  \<open>extract_metadata\<close>. \<open>PNaN\<close> is the object \<open>np.nan\<close>, the missing value of a
  column of strings, and the only value that the test \<open>filename is np.nan\<close> accepts;
  \<open>PStr\<close> is a string; \<open>PFloatNaN\<close> is a float NaN that is another object than
  \<open>np.nan\<close>, the missing value of a column of floats; \<open>POther\<close> is any other object
  (a number). On all but strings \<open>os.path.join\<close> raises \<open>TypeError\<close>.
\<close>

datatype pval = PNaN | PStr string | PFloatNaN | POther

text \<open>
  One entry of \<open>probe['streams']\<close>, by what the code reads from it: the value under
  \<open>codec_type\<close>, and the results of \<open>float(stream['duration'])\<close>,
  \<open>int(stream['width'])\<close> and \<open>int(stream['height'])\<close>. \<open>Inl e\<close> is the text of the
  exception that the lookup or the conversion raises; the type \<open>'f\<close> of durations stands
  for Python's floats.
\<close>

record 'f stream =
  codec_type :: "string + string"
  duration :: "string + 'f"
  width :: "string + int"
  height :: "string + int"

text \<open>\<open>ffmpeg.probe(file_path)\<close> raises, or returns the list of streams.\<close>

datatype 'f probe_result = ProbeError string | ProbeOk "'f stream list"

text \<open>
  The world of the extraction: the prober, the paths it has been called on so far, and
  the lines \<open>Error getting metadata for {file_path}: {e}\<close> printed so far.
\<close>

record 'f mworld =
  probe :: "string \<Rightarrow> 'f probe_result"
  probed :: "string list"
  printed :: "(string \<times> string) list"

text \<open>
  \<open>next((stream for stream in probe['streams'] if stream['codec_type'] == 'video'), None)\<close>
\<close>

fun find_video :: "'f stream list \<Rightarrow> string + 'f stream option" where
  "find_video [] = Inr None"
| "find_video (s # ss) =
     (case codec_type s of
        Inl e \<Rightarrow> Inl e
      | Inr t \<Rightarrow> if t = ''video'' then Inr (Some s) else find_video ss)"

text \<open>
  \<open>get_video_metadata\<close>: every exception inside the \<open>try\<close> is printed and gives
  \<open>None\<close>; a probe without a video stream gives \<open>None\<close> and prints nothing.
\<close>

definition get_video_metadata ::
  "string \<Rightarrow> 'f mworld \<Rightarrow> ('f \<times> int \<times> int) option \<times> 'f mworld" where
  "get_video_metadata file_path w =
     (let w1 = w\<lparr>probed := probed w @ [file_path]\<rparr>;
          failed = (\<lambda>e. (None, w1\<lparr>printed := printed w1 @ [(file_path, e)]\<rparr>))
      in case probe w file_path of
           ProbeError e \<Rightarrow> failed e
         | ProbeOk streams \<Rightarrow>
             (case find_video streams of
                Inl e \<Rightarrow> failed e
              | Inr None \<Rightarrow> (None, w1)
              | Inr (Some video_stream) \<Rightarrow>
                  (case duration video_stream of
                     Inl e \<Rightarrow> failed e
                   | Inr d \<Rightarrow>
                       (case width video_stream of
                          Inl e \<Rightarrow> failed e
                        | Inr wd \<Rightarrow>
                            (case height video_stream of
                               Inl e \<Rightarrow> failed e
                             | Inr h \<Rightarrow> (Some (d, wd, h), w1))))))"

text \<open>
  The values of \<open>metadata_dict\<close>: \<open>metadata[0]\<close>, a duration or \<open>None\<close>, and
  \<open>metadata[1]\<close>, a pair of width and height or \<open>(None, None)\<close>.
\<close>

datatype 'f mval = MDuration "'f option" | MDimensions "int option \<times> int option"

type_synonym 'f mdict = "(string \<times> string) \<rightharpoonup> 'f mval"

definition video_types :: "string list" where
  "video_types = [''Video A'', ''Video B'', ''Video Total'', ''Video AB'']"

definition duration_key :: "string \<Rightarrow> string \<times> string" where
  "duration_key video_type = (''Metadata'', video_type @ '' Duration'')"

definition dimensions_key :: "string \<Rightarrow> string \<times> string" where
  "dimensions_key video_type = (''Metadata'', video_type @ '' Dimensions'')"

text \<open>\<open>os.path.join\<close> on row values: it raises \<open>TypeError\<close> unless both are strings.\<close>

definition os_path_join :: "pval \<Rightarrow> pval \<Rightarrow> exn + string" where
  "os_path_join a b =
     (case (a, b) of
        (PStr x, PStr y) \<Rightarrow> Inr (path_join x y)
      | _ \<Rightarrow> Inl TypeError)"

text \<open>
  The body of the loop \<open>for video_type in video_types\<close> of \<open>extract_metadata\<close>. The
  list \<open>[None, (None, None)]\<close> and a returned tuple are true values, \<open>None\<close> is not, so
  the two keys are set except when \<open>get_video_metadata\<close> returns \<open>None\<close>. A missing
  label makes \<open>row[...]\<close> raise \<open>KeyError\<close>.
\<close>

definition extract_role ::
  "pval \<Rightarrow> (string \<times> pval) list \<Rightarrow> string \<Rightarrow> 'f mdict \<Rightarrow> 'f mworld \<Rightarrow>
   (exn + 'f mdict) \<times> 'f mworld" where
  "extract_role base_dir row video_type metadata_dict w =
     (case map_of row video_type of
        None \<Rightarrow> (Inl (KeyError video_type), w)
      | Some filename \<Rightarrow>
          if filename = PNaN
          then (Inr (metadata_dict(duration_key video_type \<mapsto> MDuration None,
                                   dimensions_key video_type \<mapsto> MDimensions (None, None))), w)
          else (case os_path_join base_dir filename of
                  Inl e \<Rightarrow> (Inl e, w)
                | Inr path \<Rightarrow>
                    (case get_video_metadata path w of
                       (None, w1) \<Rightarrow> (Inr metadata_dict, w1)
                     | (Some (d, wd, h), w1) \<Rightarrow>
                         (Inr (metadata_dict(duration_key video_type \<mapsto> MDuration (Some d),
                                 dimensions_key video_type \<mapsto> MDimensions (Some wd, Some h))),
                          w1))))"

fun extract_roles ::
  "pval \<Rightarrow> (string \<times> pval) list \<Rightarrow> string list \<Rightarrow> 'f mdict \<Rightarrow> 'f mworld \<Rightarrow>
   (exn + 'f mdict) \<times> 'f mworld" where
  "extract_roles base_dir row [] metadata_dict w = (Inr metadata_dict, w)"
| "extract_roles base_dir row (video_type # rest) metadata_dict w =
     (case extract_role base_dir row video_type metadata_dict w of
        (Inl e, w1) \<Rightarrow> (Inl e, w1)
      | (Inr metadata_dict1, w1) \<Rightarrow> extract_roles base_dir row rest metadata_dict1 w1)"

definition extract_metadata ::
  "(string \<times> pval) list \<Rightarrow> 'f mworld \<Rightarrow> (exn + 'f mdict) \<times> 'f mworld" where
  "extract_metadata row w =
     (case map_of row ''base_dir'' of
        None \<Rightarrow> (Inl (KeyError ''base_dir''), w)
      | Some base_dir \<Rightarrow> extract_roles base_dir row video_types Map.empty w)"

text \<open>
  \<open>df["Paths"].progress_apply(extract_metadata, axis=1)\<close> in \<open>analyze_data\<close>: the rows
  in order.
\<close>

fun metadata_apply ::
  "(string \<times> pval) list list \<Rightarrow> 'f mworld \<Rightarrow> (exn + 'f mdict list) \<times> 'f mworld" where
  "metadata_apply [] w = (Inr [], w)"
| "metadata_apply (row # rows) w =
     (case extract_metadata row w of
        (Inl e, w1) \<Rightarrow> (Inl e, w1)
      | (Inr m, w1) \<Rightarrow>
          (case metadata_apply rows w1 of
             (Inl e, w2) \<Rightarrow> (Inl e, w2)
           | (Inr ms, w2) \<Rightarrow> (Inr (m # ms), w2)))"

text \<open>
  The rows on which the null test of \<open>extract_metadata\<close> works: \<open>base_dir\<close> is a
  string and each of the four video roles is a file name or the object \<open>np.nan\<close>. A
  row with a float NaN under a role is not one of them. \<open>role_paths\<close> lists the paths
  of the roles that have a file name.
\<close>

definition nan_object_row :: "(string \<times> pval) list \<Rightarrow> bool" where
  "nan_object_row row \<longleftrightarrow>
     (case map_of row ''base_dir'' of Some (PStr b) \<Rightarrow> True | _ \<Rightarrow> False) \<and>
     list_all (\<lambda>video_type. case map_of row video_type of
                 Some PNaN \<Rightarrow> True | Some (PStr f) \<Rightarrow> True | _ \<Rightarrow> False) video_types"

definition role_paths :: "(string \<times> pval) list \<Rightarrow> string list \<Rightarrow> string list" where
  "role_paths row vts =
     concat (map (\<lambda>video_type.
        case (map_of row ''base_dir'', map_of row video_type) of
          (Some (PStr b), Some (PStr f)) \<Rightarrow> [path_join b f]
        | _ \<Rightarrow> []) vts)"

text \<open>A concrete ledger row and two probers.\<close>

definition example_ledger_row :: "(string \<times> pval) list" where
  "example_ledger_row =
     [(''base_dir'', PStr ''/d/a__0''), (''Video A'', PStr ''a.mp4''), (''Video B'', PNaN),
      (''Video Total'', PStr ''t.mp4''), (''Video AB'', PNaN)]"

definition video_stream_a :: "rat stream" where
  "video_stream_a = \<lparr>codec_type = Inr ''video'', duration = Inr (25 / 2),
     width = Inr 1280, height = Inr 720\<rparr>"

definition audio_stream :: "rat stream" where
  "audio_stream = \<lparr>codec_type = Inr ''audio'', duration = Inr (25 / 2),
     width = Inl ''width'', height = Inl ''height''\<rparr>"

definition one_video_world :: "rat mworld" where
  "one_video_world = \<lparr>probe = (\<lambda>p. if p = ''/d/a__0/a.mp4''
       then ProbeOk [audio_stream, video_stream_a] else ProbeError ''ffprobe error''),
     probed = [], printed = []\<rparr>"

definition audio_only_world :: "rat mworld" where
  "audio_only_world = \<lparr>probe = (\<lambda>p. ProbeOk [audio_stream]), probed = [], printed = []\<rparr>"

section \<open>DGS Korpus: identifiers and duration formatting\<close>

text \<open>Python's \<open>str\<close> of a non-negative and of any integer: decimal digits.\<close>

definition digit_char :: "nat \<Rightarrow> char" where
  "digit_char d = ''0123456789'' ! d"

function str_nat :: "nat \<Rightarrow> string" where
  "str_nat n = (if n < 10 then [digit_char n] else str_nat (n div 10) @ [digit_char (n mod 10)])"
  by pat_completeness auto

termination
  by (relation "measure id") auto

declare str_nat.simps [simp del]


text \<open>
  \<open>df.groupby('Transcript').cumcount()\<close>: each row gets the number of rows before it
  that are in its group, the groups being the rows of equal title. \<open>seen\<close> holds, for
  each title met so far, how many rows carried it.
\<close>

fun cumcount_from :: "(string \<rightharpoonup> nat) \<Rightarrow> string list \<Rightarrow> nat list" where
  "cumcount_from seen [] = []"
| "cumcount_from seen (t # ts) =
     (let n = (case seen t of None \<Rightarrow> 0 | Some k \<Rightarrow> k)
      in n # cumcount_from (seen(t \<mapsto> Suc n)) ts)"

definition cumcount :: "string list \<Rightarrow> nat list" where
  "cumcount titles = cumcount_from Map.empty titles"

text \<open>
  The identifier assignment of \<open>download_data\<close>:
  \<open>df['Transcript'] + '__' + df.groupby('Transcript').cumcount().astype(str)\<close>, on the
  column of titles in row order.
\<close>

definition assign_identifiers :: "string list \<Rightarrow> string list" where
  "assign_identifiers titles =
     map (\<lambda>(title, n). title @ ''__'' @ str_nat n) (zip titles (cumcount titles))"






fun join :: "string \<Rightarrow> string list \<Rightarrow> string" where
  "join sep [] = []"
| "join sep [x] = x"
| "join sep (x # y # ys) = x @ sep @ join sep (y # ys)"


text \<open>
  The number that a string of decimal digits denotes, and what it is for a string to be
  the decimal numeral of a number: digits only, at least one, no leading zero except in
  \<open>0\<close> itself.
\<close>

definition digit_value :: "char \<Rightarrow> nat" where
  "digit_value c = of_char c - 48"

definition decimal_value :: "string \<Rightarrow> nat" where
  "decimal_value ds = foldl (\<lambda>a c. 10 * a + digit_value c) 0 ds"

definition numeral_of :: "nat \<Rightarrow> string \<Rightarrow> bool" where
  "numeral_of n ds \<longleftrightarrow>
     ds \<noteq> [] \<and> set ds \<subseteq> set ''0123456789'' \<and> (hd ds = CHR ''0'' \<longrightarrow> ds = ''0'') \<and>
     decimal_value ds = n"

section \<open>DGS Korpus: the ledger file written and read back\<close>

text \<open>
  \<open>download_data\<close> persists the table with \<open>df.to_csv(csv_filename)\<close> and
  \<open>analyze_data\<close> reads it with \<open>pd.read_csv(..., header=[0, 1], index_col=0)\<close>:
  no \<open>dtype\<close>, no \<open>converters\<close>, no \<open>na_values\<close>. A column is followed through
  the file as the list of the texts of its fields; the quoting that the writer puts
  around a field with a comma or a quote is what the reader takes off again.

  \<open>to_csv\<close> writes \<open>None\<close> as the empty field and any other object as its \<open>str\<close>:
  a string as itself and a list as Python prints it, with the \<open>repr\<close> of each element.
  \<open>py_repr_str\<close> is the \<open>repr\<close> of a string of ASCII characters.
\<close>

definition hex_digit :: "nat \<Rightarrow> char" where
  "hex_digit d = ''0123456789abcdef'' ! d"

definition control_char :: "char \<Rightarrow> bool" where
  "control_char c \<longleftrightarrow> of_char c < (32::nat) \<or> of_char c = (127::nat)"

definition repr_char :: "char \<Rightarrow> char \<Rightarrow> string" where
  "repr_char quote c =
     (if c = quote \<or> c = CHR 0x5C then [CHR 0x5C, c]
      else if c = CHR 0x0A then [CHR 0x5C, CHR ''n'']
      else if c = CHR 0x0D then [CHR 0x5C, CHR ''r'']
      else if c = CHR 0x09 then [CHR 0x5C, CHR ''t'']
      else if control_char c
      then [CHR 0x5C, CHR ''x'', hex_digit (of_char c div 16), hex_digit (of_char c mod 16)]
      else [c])"

definition py_repr_str :: "string \<Rightarrow> string" where
  "py_repr_str s =
     (let quote = (if CHR 0x27 \<in> set s \<and> CHR 0x22 \<notin> set s then CHR 0x22 else CHR 0x27)
      in [quote] @ concat (map (repr_char quote) s) @ [quote])"

definition py_repr_item :: "string option \<Rightarrow> string" where
  "py_repr_item p = (case p of None \<Rightarrow> ''None'' | Some s \<Rightarrow> py_repr_str s)"

definition py_repr_list :: "string option list \<Rightarrow> string" where
  "py_repr_list paths = ''['' @ join '', '' (map py_repr_item paths) @ '']''"

fun to_csv_field :: "lval \<Rightarrow> string" where
  "to_csv_field LNone = []"
| "to_csv_field (LStr s) = s"
| "to_csv_field (LList paths) = py_repr_list paths"

text \<open>
  A cell of the catalog is \<open>None\<close>, a string or a list of strings as well, and is written
  as the ledger value of the same Python value; of a cell of another type nothing is
  known (and \<open>download_data\<close> raises before it writes a table that holds one).
\<close>

fun python_value :: "cell \<Rightarrow> lval option" where
  "python_value CNone = Some LNone"
| "python_value (CStr url) = Some (LStr url)"
| "python_value (CList urls) = Some (LList (map Some urls))"
| "python_value COther = None"

text \<open>
  \<open>read_csv\<close> takes a field to be missing when its text is one of the default markers,
  the empty text among them. A field without control characters that has a character
  which occurs in no number, no infinity and no truth value can only be text.
\<close>

definition na_values :: "string list" where
  "na_values = ['''', ''#N/A'', ''#N/A N/A'', ''#NA'', ''-1.#IND'', ''-1.#QNAN'', ''-NaN'', ''-nan'',
     ''1.#IND'', ''1.#QNAN'', ''<NA>'', ''N/A'', ''NA'', ''NULL'', ''NaN'', ''None'', ''n/a'', ''nan'',
     ''null'']"

definition na_field :: "string \<Rightarrow> bool" where
  "na_field f \<longleftrightarrow> f \<in> set na_values"

definition text_field :: "string \<Rightarrow> bool" where
  "text_field f \<longleftrightarrow>
     \<not> na_field f \<and> \<not> list_ex control_char f \<and>
     list_ex (\<lambda>c. c \<notin> set ''0123456789+-.eE infinityINFINITYtrueTRUEfalseFALSE'') f"

text \<open>
  The values of one column as the rows of \<open>df.apply(..., axis=1)\<close> hold them, for a file
  that is read in one block. A column all of whose fields are missing gets a float
  dtype, and its values reach the row as float NaNs; a column with text in every field
  that is not missing gets the dtype \<open>object\<close>, with the object \<open>np.nan\<close> for a missing
  field and the text itself for any other. What dtype a column gets whose fields look
  like numbers or truth values depends on the reader's syntax of numbers, which is not
  modelled (\<open>None\<close>).
\<close>

definition read_csv_column :: "string list \<Rightarrow> pval list option" where
  "read_csv_column texts =
     (if list_all na_field texts then Some (map (\<lambda>f. PFloatNaN) texts)
      else if list_all (\<lambda>f. na_field f \<or> text_field f) texts
      then Some (map (\<lambda>f. if na_field f then PNaN else PStr f) texts)
      else None)"

definition reload_column :: "lval list \<Rightarrow> pval list option" where
  "reload_column col = read_csv_column (map to_csv_field col)"

text \<open>
  A column of ledger values in which every string is a missing marker or text, and the
  strings in the lists are ASCII.
\<close>

definition ascii_string :: "string \<Rightarrow> bool" where
  "ascii_string s \<longleftrightarrow> list_all (\<lambda>c. of_char c < (128::nat)) s"

definition text_column :: "lval list \<Rightarrow> bool" where
  "text_column col \<longleftrightarrow>
     list_all (\<lambda>v. case v of
                 LNone \<Rightarrow> True
               | LStr s \<Rightarrow> na_field s \<or> text_field s
               | LList paths \<Rightarrow>
                   list_all (\<lambda>p. case p of None \<Rightarrow> True | Some s \<Rightarrow> ascii_string s) paths)
       col"

text \<open>Two columns of a ledger of three rows, and a row with a float NaN under a role.\<close>

definition srt_column :: "lval list" where
  "srt_column = [LStr ''dgs_1.srt'', LList [Some ''1.srt'', None], LNone]"

definition video_ab_column :: "lval list" where
  "video_ab_column = [LNone, LNone, LNone]"

definition float_nan_row :: "(string \<times> pval) list" where
  "float_nan_row =
     [(''base_dir'', PStr ''/d/a__0''), (''Video A'', PStr ''a.mp4''), (''Video B'', PNaN),
      (''Video Total'', PNaN), (''Video AB'', PFloatNaN)]"

text \<open>A catalog of thirteen rows, twelve titled \<open>X\<close> and one titled \<open>Y\<close>.\<close>

definition thirteen_titles :: "string list" where
  "thirteen_titles = [''X'', ''X'', ''X'', ''Y'', ''X'', ''X'', ''X'', ''X'', ''X'', ''X'', ''X'',
     ''X'', ''X'']"

section \<open>YouTube-SL-25: the batch over languages\<close>

text \<open>
  The writes to the file system that the script makes: the shell command
  \<open>rm -rf {directory_name}\<close> (recorded with the text after \<open>rm -rf\<close>),
  \<open>os.makedirs\<close>, and the file that \<open>stream.download\<close> saves.
\<close>

datatype fs_op = RmRf string | MakeDirs string | WriteFile string string

text \<open>
  The world of the YouTube script: the paths that exist, the writes made so far, the
  video ids requested from YouTube so far, what YouTube does for a video id (the title,
  or the text of the exception raised inside \<open>download_video\<close>), the answers still to
  come from the terminal, the lines printed, and the count of the bar \<open>total_pbar\<close>.
  An element of \<open>stdin\<close> is what \<open>input(...).strip().lower()\<close> evaluates to for that
  line. What the shell removes is left to the oracle \<open>after_rm\<close>: \<open>after_rm w text ps\<close>
  are the paths that exist, out of \<open>ps\<close>, once the shell has run \<open>rm -rf\<close> followed
  by \<open>text\<close> (which the shell splits into words).
\<close>

record yworld =
  exists_path :: "string set"
  fs_ops :: "fs_op list"
  net_calls :: "string list"
  youtube :: "string \<Rightarrow> string + string"
  after_rm :: "string \<Rightarrow> string set \<Rightarrow> string set"
  stdin :: "string list"
  stdout :: "string list"
  progress :: nat

definition create_directory :: "string \<Rightarrow> yworld \<Rightarrow> yworld" where
  "create_directory directory_name w =
     (if directory_name \<notin> exists_path w
      then w\<lparr>exists_path := insert directory_name (exists_path w),
             fs_ops := fs_ops w @ [MakeDirs directory_name]\<rparr>
      else w)"

text \<open>\<open>os.system(f"rm -rf {directory_name}")\<close>\<close>

definition rm_rf :: "string \<Rightarrow> yworld \<Rightarrow> yworld" where
  "rm_rf directory_name w =
     w\<lparr>exists_path := after_rm w directory_name (exists_path w),
       fs_ops := fs_ops w @ [RmRf directory_name]\<rparr>"

text \<open>
  \<open>handle_existing_directory\<close>: \<open>Some True\<close> and \<open>Some False\<close> for the two returns,
  \<open>None\<close> when no branch is taken (the function then returns Python's \<open>None\<close>), and
  \<open>EOFError\<close> when \<open>input\<close> finds no line.
\<close>

definition handle_existing_directory ::
  "string \<Rightarrow> string \<Rightarrow> yworld \<Rightarrow> (exn + bool option) \<times> yworld" where
  "handle_existing_directory directory_name replace_option w =
     (if replace_option = ''all''
      then (Inr (Some True), create_directory directory_name (rm_rf directory_name w))
      else if replace_option = ''skip''
      then (Inr (Some False), w)
      else if replace_option = ''custom''
      then (let w1 = w\<lparr>stdout := stdout w @
                   [''Directory '' @ directory_name @
                    '' already exists. Do you want to replace it? (y/n): '']\<rparr>
            in case stdin w1 of
                 [] \<Rightarrow> (Inl EOFError, w1)
               | choice # rest \<Rightarrow>
                   (let w2 = w1\<lparr>stdin := rest\<rparr>
                    in if choice = ''y''
                       then (Inr (Some True),
                             create_directory directory_name (rm_rf directory_name w2))
                       else (Inr (Some False), w2)))
      else (Inr None, w))"

text \<open>
  \<open>download_video\<close>: the request to YouTube is made in any case; the file is written
  when nothing raises; an exception is caught and printed.
\<close>

definition sanitize :: "string \<Rightarrow> string" where
  "sanitize title =
     filter (\<lambda>c. c \<notin> set [CHR 0x5C, CHR ''/'', CHR ''*'', CHR ''?'', CHR '':'', CHR 0x22,
                            CHR ''<'', CHR ''>'', CHR ''|'']) title"

definition download_video :: "string \<Rightarrow> string \<Rightarrow> yworld \<Rightarrow> yworld" where
  "download_video video_id directory_name w =
     (let w1 = w\<lparr>net_calls := net_calls w @ [video_id]\<rparr>
      in case youtube w video_id of
           Inr yt_title \<Rightarrow>
             (let filename = video_id @ ''_'' @ sanitize yt_title @ ''.mp4''
              in w1\<lparr>fs_ops := fs_ops w1 @ [WriteFile directory_name filename],
                    stdout := stdout w1 @
                      [''Downloaded '' @ filename @ '' to '' @ directory_name]\<rparr>)
         | Inl e \<Rightarrow>
             w1\<lparr>stdout := stdout w1 @ [''Failed to download '' @ video_id @ '': '' @ e]\<rparr>)"

text \<open>
  The comprehension \<open>[video for video in video_data if video[1] == language]\<close>; a row
  with fewer than two fields makes \<open>video[1]\<close> raise \<open>IndexError\<close>.
\<close>

fun select_language :: "string \<Rightarrow> string list list \<Rightarrow> exn + string list list" where
  "select_language language [] = Inr []"
| "select_language language (video # video_data) =
     (if length video < 2 then Inl IndexError
      else case select_language language video_data of
             Inl e \<Rightarrow> Inl e
           | Inr videos \<Rightarrow> Inr (if video ! 1 = language then video # videos else videos))"

text \<open>
  The loop \<open>for video_id, _ in lang_videos\<close>: a row that does not have exactly two
  fields cannot be unpacked (\<open>ValueError\<close>).
\<close>

fun download_videos :: "string \<Rightarrow> string list list \<Rightarrow> yworld \<Rightarrow> (exn + unit) \<times> yworld" where
  "download_videos lang_dir [] w = (Inr (), w)"
| "download_videos lang_dir (video # lang_videos) w =
     (case video of
        [video_id, _] \<Rightarrow>
          (let w1 = download_video video_id lang_dir w
           in download_videos lang_dir lang_videos (w1\<lparr>progress := progress w1 + 1\<rparr>))
      | _ \<Rightarrow> (Inl ValueError, w))"

text \<open>The body of the loop \<open>for language in languages\<close> of \<open>main\<close>.\<close>

definition process_language ::
  "string \<Rightarrow> string \<Rightarrow> string list list \<Rightarrow> string \<Rightarrow> yworld \<Rightarrow> (exn + unit) \<times> yworld" where
  "process_language output_dir replace video_data language w =
     (case select_language language video_data of
        Inl e \<Rightarrow> (Inl e, w)
      | Inr lang_videos \<Rightarrow>
          (let lang_dir = path_join output_dir language
           in if lang_dir \<in> exists_path w
              then (case handle_existing_directory lang_dir replace w of
                      (Inl e, w1) \<Rightarrow> (Inl e, w1)
                    | (Inr proceed, w1) \<Rightarrow>
                        if proceed \<noteq> Some True
                        then (Inr (), w1\<lparr>stdout := stdout w1 @ [''Skipping '' @ lang_dir],
                                         progress := progress w1 + length lang_videos\<rparr>)
                        else download_videos lang_dir lang_videos w1)
              else download_videos lang_dir lang_videos (create_directory lang_dir w)))"

text \<open>
  The loop itself; \<open>languages\<close> is the set of the second fields, in the order in which
  Python happens to iterate it.
\<close>

fun process_languages ::
  "string \<Rightarrow> string \<Rightarrow> string list list \<Rightarrow> string list \<Rightarrow> yworld \<Rightarrow> (exn + unit) \<times> yworld" where
  "process_languages output_dir replace video_data [] w = (Inr (), w)"
| "process_languages output_dir replace video_data (language # languages) w =
     (case process_language output_dir replace video_data language w of
        (Inl e, w1) \<Rightarrow> (Inl e, w1)
      | (Inr _, w1) \<Rightarrow> process_languages output_dir replace video_data languages w1)"

definition example_videos :: "string list list" where
  "example_videos = [[''id1'', ''ase''], [''id2'', ''dgs''], [''id3'', ''ase'']]"

definition example_yworld :: yworld where
  "example_yworld = \<lparr>exists_path = {''out'', ''out/ase''}, fs_ops = [], net_calls = [],
     youtube = (\<lambda>v. Inr ''title''), after_rm = (\<lambda>text ps. ps - {text}),
     stdin = [], stdout = [], progress = 0\<rparr>"

section \<open>Properties\<close>

subsection \<open>Acquisition: the shape of the ledger\<close>

lemma download_file_loop_net:
  "net (snd (download_file_loop a url p m w)) = net w"
proof (induction a url p m w rule: download_file_loop.induct)
  case (1 attempt url save_path max_retries w)
  show ?case
    apply (subst download_file_loop.simps)
    using 1 by (auto simp: Let_def split: outcome.splits)
qed

lemma download_file_net: "net (snd (download_file url p m w)) = net w"
  by (simp add: download_file_def download_file_loop_net)

lemma download_file_loop_no_other:
  assumes "\<forall>u n x. net w u n \<noteq> OtherException x"
  shows "\<exists>r. fst (download_file_loop a url p m w) = Inr r"
  using assms
proof (induction a url p m w rule: download_file_loop.induct)
  case (1 attempt url save_path max_retries w)
  show ?case
    apply (subst download_file_loop.simps)
    using 1 by (auto simp: Let_def split: outcome.splits)
qed

lemma download_list_shape:
  "download_list d m urls paths w = (Inr ps, w') \<Longrightarrow>
   \<exists>qs. ps = paths @ qs \<and> list_all2 (\<lambda>url p. p = None \<or> p = Some (basename url)) urls qs"
proof (induction urls arbitrary: paths w)
  case Nil
  then show ?case by simp
next
  case (Cons url urls)
  then show ?case
    by (fastforce simp: Let_def split: prod.splits sum.splits if_splits)
qed

lemma download_cell_shape:
  "download_cell d m c w = (Inr v, w') \<Longrightarrow> shape_matches c v"
  by (cases c) (auto simp: Let_def split: prod.splits sum.splits if_splits dest: download_list_shape)

lemma download_cols_shape:
  assumes "download_cols row d m cols filenames w = (Inr led, w')"
    and "\<forall>col\<in>S. \<exists>v. filenames (''Paths'', col) = Some v \<and> shape_matches (row_get row col) v"
  shows "\<forall>col\<in>S \<union> set cols. \<exists>v. led (''Paths'', col) = Some v \<and> shape_matches (row_get row col) v"
  using assms
proof (induction cols arbitrary: filenames w S)
  case Nil
  then show ?case by simp
next
  case (Cons col cols)
  from Cons.prems(1) obtain v w1 where
    c: "download_cell d m (row_get row col) w = (Inr v, w1)" and
    r: "download_cols row d m cols (filenames((''Paths'', col) \<mapsto> v)) w1 = (Inr led, w')"
    by (auto split: prod.splits sum.splits)
  have sm: "shape_matches (row_get row col) v" using c by (rule download_cell_shape)
  have "\<forall>k\<in>insert col S. \<exists>v'. (filenames((''Paths'', col) \<mapsto> v)) (''Paths'', k) = Some v' \<and> shape_matches (row_get row k) v'"
    using Cons.prems(2) sm by auto
  from Cons.IH[OF r this] show ?case by simp
qed

lemma row_get_item:
  assumes "(col, c) \<in> set (items row)" and "row_get row col \<noteq> COther"
  shows "row_get row col = c"
proof -
  obtain kv where f: "filter (\<lambda>kv. fst kv = col) (items row) = [kv]"
    using assms(2) unfolding row_get_def by (auto split: list.splits)
  have "(col, c) \<in> set (filter (\<lambda>kv. fst kv = col) (items row))" using assms(1) by simp
  then have "kv = (col, c)" unfolding f by simp
  then show ?thesis unfolding row_get_def f by simp
qed

lemma ledger_shape_if_returns:
  assumes "download_file_row row base_dir max_retries w = (Inr led, w')"
    and "(col, c) \<in> set (items row)"
  shows "\<exists>v. led (''Paths'', col) = Some v \<and> shape_matches c v"
proof -
  have "\<forall>k\<in>{} \<union> set (map fst (items row)). \<exists>v. led (''Paths'', k) = Some v \<and> shape_matches (row_get row k) v"
    using assms(1) unfolding download_file_row_def Let_def
    by (rule download_cols_shape) simp
  moreover have "col \<in> set (map fst (items row))" using assms(2) by force
  ultimately obtain v where v: "led (''Paths'', col) = Some v" "shape_matches (row_get row col) v"
    by auto
  then have "row_get row col \<noteq> COther" by auto
  with assms(2) have "row_get row col = c" by (rule row_get_item)
  with v show ?thesis by auto
qed

lemma download_file_no_other:
  assumes "\<forall>u n x. net w u n \<noteq> OtherException x"
  shows "\<exists>r w'. download_file url p m w = (Inr r, w') \<and> net w' = net w"
proof -
  obtain r where "fst (download_file_loop 0 url p m w) = Inr r"
    using download_file_loop_no_other[OF assms] by blast
  then show ?thesis
    using download_file_loop_net[of 0 url p m w]
    by (cases "download_file_loop 0 url p m w") (auto simp: download_file_def)
qed

lemma download_list_no_other:
  assumes "\<forall>u n x. net w u n \<noteq> OtherException x"
  shows "\<exists>ps w'. download_list d m urls paths w = (Inr ps, w') \<and> net w' = net w"
  using assms
proof (induction urls arbitrary: paths w)
  case Nil
  then show ?case by simp
next
  case (Cons url urls)
  obtain r w1 where d: "download_file url (path_join d (basename url)) m w = (Inr r, w1)"
    and n: "net w1 = net w"
    using download_file_no_other[OF Cons.prems] by blast
  have "\<forall>u n x. net w1 u n \<noteq> OtherException x" using Cons.prems n by simp
  from Cons.IH[OF this] show ?case using d n by (auto simp: Let_def)
qed

lemma download_cell_no_other:
  assumes "\<forall>u n x. net w u n \<noteq> OtherException x" and "c \<noteq> COther"
  shows "\<exists>v w'. download_cell d m c w = (Inr v, w') \<and> net w' = net w"
proof (cases c)
  case CNone
  then show ?thesis by simp
next
  case (CStr url)
  obtain r w1 where "download_file url (path_join d (basename url)) m w = (Inr r, w1)"
    and "net w1 = net w"
    using download_file_no_other[OF assms(1)] by blast
  then show ?thesis using CStr by (auto simp: Let_def)
next
  case (CList urls)
  obtain ps w1 where "download_list d m urls [] w = (Inr ps, w1)" and "net w1 = net w"
    using download_list_no_other[OF assms(1)] by blast
  then show ?thesis using CList by auto
next
  case COther
  then show ?thesis using assms(2) by simp
qed

lemma download_cols_no_other:
  assumes "\<forall>u n x. net w u n \<noteq> OtherException x"
    and "\<forall>col\<in>set cols. row_get row col \<noteq> COther"
  shows "\<exists>led w'. download_cols row d m cols filenames w = (Inr led, w')"
  using assms
proof (induction cols arbitrary: filenames w)
  case Nil
  then show ?case by simp
next
  case (Cons col cols)
  have "row_get row col \<noteq> COther" using Cons.prems(2) by simp
  then obtain v w1 where c: "download_cell d m (row_get row col) w = (Inr v, w1)"
    and n: "net w1 = net w"
    using download_cell_no_other[OF Cons.prems(1)] by blast
  have "\<forall>u n x. net w1 u n \<noteq> OtherException x" using Cons.prems(1) n by simp
  moreover have "\<forall>k\<in>set cols. row_get row k \<noteq> COther" using Cons.prems(2) by simp
  ultimately obtain led w' where
    "download_cols row d m cols (filenames((''Paths'', col) \<mapsto> v)) w1 = (Inr led, w')"
    using Cons.IH by blast
  then show ?case using c by simp
qed

lemma filter_key_distinct:
  "distinct (map fst xs) \<Longrightarrow> (k, v) \<in> set xs \<Longrightarrow> filter (\<lambda>kv. fst kv = k) xs = [(k, v)]"
  by (induction xs) (auto simp: filter_empty_conv image_iff)

lemma row_get_distinct:
  assumes "distinct (map fst (items row))" and "(col, c) \<in> set (items row)"
  shows "row_get row col = c"
  using filter_key_distinct[OF assms] by (simp add: row_get_def)

lemma catalog_entry_row_get:
  assumes "catalog_entry row" and "col \<in> set (map fst (items row))"
  shows "row_get row col \<noteq> COther"
proof -
  obtain c where c: "(col, c) \<in> set (items row)" using assms(2) by auto
  have "row_get row col = c" using assms(1) c by (simp add: catalog_entry_def row_get_distinct)
  moreover have "c \<noteq> COther" using assms(1) c by (auto simp: catalog_entry_def list_all_iff)
  ultimately show ?thesis by simp
qed

text \<open>
  Claim C1. For every catalog entry (distinct labels, each cell \<open>None\<close>, a string or a
  list of strings), whatever the downloads do short of an exception other than a
  \<open>RequestException\<close>, \<open>download_file_row\<close> returns a ledger whose value under
  \<open>("Paths", col)\<close> has the shape of the cell under \<open>col\<close>: \<open>None\<close> for an absent
  link, the file name or \<open>None\<close> for one link, and for several links a list of the same
  length with the file name or \<open>None\<close> at each position.
\<close>

theorem download_file_row_shape:
  assumes "catalog_entry row" and "\<forall>u n x. net w u n \<noteq> OtherException x"
  shows "\<exists>led w'. download_file_row row base_dir max_retries w = (Inr led, w') \<and>
           (\<forall>(col, c)\<in>set (items row). \<exists>v. led (''Paths'', col) = Some v \<and> shape_matches c v)"
proof -
  have "\<forall>col\<in>set (map fst (items row)). row_get row col \<noteq> COther"
    using catalog_entry_row_get[OF assms(1)] by blast
  with assms(2) obtain led w' where
    r: "download_file_row row base_dir max_retries w = (Inr led, w')"
    unfolding download_file_row_def Let_def by (blast dest: download_cols_no_other)
  have "\<forall>(col, c)\<in>set (items row). \<exists>v. led (''Paths'', col) = Some v \<and> shape_matches c v"
    using ledger_shape_if_returns[OF r] by blast
  with r show ?thesis by blast
qed

text \<open>
  Witness for C1: a row with an absent, a single and a double link, on a network whose
  first four requests time out.
\<close>

theorem download_file_row_shape_witness:
  "catalog_entry example_row \<and> (\<forall>u n x. net flaky_world u n \<noteq> OtherException x) \<and>
   (\<exists>led w'. download_file_row example_row ''/data'' 3 flaky_world = (Inr led, w') \<and>
      (\<forall>(col, c)\<in>set (items example_row). \<exists>v. led (''Paths'', col) = Some v \<and> shape_matches c v))"
proof -
  have a: "catalog_entry example_row" by (simp add: catalog_entry_def example_row_def)
  have b: "\<forall>u n x. net flaky_world u n \<noteq> OtherException x" by (simp add: flaky_world_def)
  show ?thesis using a b download_file_row_shape[OF a b, of "''/data''" 3] by simp
qed

subsection \<open>Acquisition: failing downloads and unexpected cells\<close>

lemma download_file_loop_all_fail:
  assumes "a < R"
    and "\<forall>k<nat (R - a). \<exists>e. net w url (length (requests w) + k) = RequestException e"
  shows "\<exists>w'. download_file_loop a url p R w = (Inr None, w') \<and>
           requests w' = requests w @ replicate (nat (R - a)) url \<and>
           last (warnings w') = GaveUp url R \<and>
           length (warnings w') = length (warnings w) + nat (R - a) + 1"
  using assms
proof (induction a url p R w rule: download_file_loop.induct)
  case (1 attempt url save_path max_retries w)
  from "1.prems" have "0 < nat (max_retries - attempt)" by simp
  with "1.prems"(2) obtain e where e: "net w url (length (requests w)) = RequestException e"
    by force
  define w1 where "w1 = w\<lparr>requests := requests w @ [url]\<rparr>"
  define w2 where "w2 = w1\<lparr>warnings := warnings w1 @
     [AttemptFailed url (attempt + 1) max_retries e]\<rparr>"
  show ?case
  proof (cases "attempt = max_retries - 1")
    case True
    then show ?thesis
      using "1.prems"(1) by (subst download_file_loop.simps) (simp add: e Let_def)
  next
    case False
    with "1.prems"(1) have lt: "attempt + 1 < max_retries" by simp
    have sh: "\<forall>k<nat (max_retries - (attempt + 1)).
        \<exists>e. net w2 url (length (requests w2) + k) = RequestException e"
    proof (intro allI impI)
      fix k assume "k < nat (max_retries - (attempt + 1))"
      then have "Suc k < nat (max_retries - attempt)" by linarith
      with "1.prems"(2) show "\<exists>e. net w2 url (length (requests w2) + k) = RequestException e"
        by (force simp: w2_def w1_def)
    qed
    have n: "nat (max_retries - attempt) = Suc (nat (max_retries - (attempt + 1)))"
      using lt by linarith
    obtain w' where w': "download_file_loop (attempt + 1) url save_path max_retries w2 = (Inr None, w')"
      "requests w' = requests w2 @ replicate (nat (max_retries - (attempt + 1))) url"
      "last (warnings w') = GaveUp url max_retries"
      "length (warnings w') = length (warnings w2) + nat (max_retries - (attempt + 1)) + 1"
      using "1.IH"[OF "1.prems"(1) w1_def e w2_def False lt sh] by blast
    have "download_file_loop attempt url save_path max_retries w = (Inr None, w')"
      using "1.prems"(1) False w'(1)
      by (subst download_file_loop.simps) (simp add: e Let_def w1_def w2_def)
    moreover have "requests w' = requests w @ replicate (nat (max_retries - attempt)) url"
      using w'(2) n by (simp add: w2_def w1_def replicate_append_same)
    moreover have "length (warnings w') = length (warnings w) + nat (max_retries - attempt) + 1"
      using w'(4) n by (simp add: w2_def w1_def)
    ultimately show ?thesis using w'(3) by blast
  qed
qed

text \<open>
  Claim C2. With a retry budget \<open>R \<ge> 1\<close>, when each of the next \<open>R\<close> requests for
  \<open>url\<close> raises a \<open>RequestException\<close>, \<open>download_file\<close> makes exactly these \<open>R\<close>
  requests and returns \<open>None\<close> without raising, its last warning being that the URL could
  not be downloaded; a single-link cell then gets the ledger value \<open>None\<close> (with the
  warning of \<open>download_file_row\<close>), and in a list the position gets \<open>None\<close> and the loop
  goes on with the remaining URLs.
\<close>

theorem download_file_all_attempts_fail:
  assumes "1 \<le> R"
    and "\<forall>k<nat R. \<exists>e. net w url (length (requests w) + k) = RequestException e"
  shows "(\<exists>w1. download_file url save_path R w = (Inr None, w1) \<and>
            requests w1 = requests w @ replicate (nat R) url \<and>
            last (warnings w1) = GaveUp url R) \<and>
         (\<exists>w2. download_cell row_dir R (CStr url) w = (Inr LNone, w2) \<and>
            last (warnings w2) = GaveUp url R) \<and>
         (\<exists>w3. download_list row_dir R (url # urls) paths w =
            download_list row_dir R urls (paths @ [None]) w3 \<and>
            last (warnings w3) = GaveUp url R)"
proof -
  have f: "\<exists>w1. download_file url p R w = (Inr None, w1) \<and>
            requests w1 = requests w @ replicate (nat R) url \<and>
            last (warnings w1) = GaveUp url R" for p
    using download_file_loop_all_fail[of 0 R w url p] assms
    by (auto simp: download_file_def)
  obtain w1 where w1: "download_file url (path_join row_dir (basename url)) R w = (Inr None, w1)"
    "last (warnings w1) = GaveUp url R"
    using f by blast
  have "download_cell row_dir R (CStr url) w =
          (Inr LNone, w1\<lparr>warnings := warnings w1 @ [GaveUp url R]\<rparr>)"
    using w1(1) by (simp add: Let_def truthy_def)
  moreover have "download_list row_dir R (url # urls) paths w =
          download_list row_dir R urls (paths @ [None]) w1"
    using w1(1) by (simp add: Let_def truthy_def)
  ultimately show ?thesis using f w1(2) by auto
qed

text \<open>Witness for C2: two attempts on an unreachable host.\<close>

theorem download_file_all_attempts_fail_witness:
  "(1::int) \<le> 2 \<and>
   (\<forall>k. net down_world ''http://h/a.mp4'' (length (requests down_world) + k) =
      RequestException ''unreachable'') \<and>
   download_file ''http://h/a.mp4'' ''/d/a__0/a.mp4'' 2 down_world =
     (Inr None, down_world\<lparr>requests := [''http://h/a.mp4'', ''http://h/a.mp4''],
        warnings := [AttemptFailed ''http://h/a.mp4'' 1 2 ''unreachable'',
                     AttemptFailed ''http://h/a.mp4'' 2 2 ''unreachable'',
                     GaveUp ''http://h/a.mp4'' 2]\<rparr>) \<and>
   fst (download_cell ''/d/a__0'' 2 (CStr ''http://h/a.mp4'') down_world) = Inr LNone"
proof -
  have a: "(1::int) \<le> 2" by simp
  have b: "\<forall>k<nat 2. \<exists>e. net down_world ''http://h/a.mp4'' (length (requests down_world) + k) = RequestException e"
    by (simp add: down_world_def)
  have c: "download_file ''http://h/a.mp4'' ''/d/a__0/a.mp4'' 2 down_world =
     (Inr None, down_world\<lparr>requests := [''http://h/a.mp4'', ''http://h/a.mp4''],
        warnings := [AttemptFailed ''http://h/a.mp4'' 1 2 ''unreachable'',
                     AttemptFailed ''http://h/a.mp4'' 2 2 ''unreachable'',
                     GaveUp ''http://h/a.mp4'' 2]\<rparr>)"
    by (simp add: download_file_def download_file_loop.simps down_world_def Let_def)
  have d: "\<forall>k. net down_world ''http://h/a.mp4'' (length (requests down_world) + k) =
      RequestException ''unreachable''"
    by (simp add: down_world_def)
  have "fst (download_cell ''/d/a__0'' 2 (CStr ''http://h/a.mp4'') down_world) = Inr LNone"
    using download_file_all_attempts_fail[OF a b, of "''/d/a__0/a.mp4''" "''/d/a__0''" "[]" "[]"]
    by auto
  with a c d show ?thesis by blast
qed

lemma download_list_net: "net (snd (download_list d m urls paths w)) = net w"
proof (induction urls arbitrary: paths w)
  case Nil
  then show ?case by simp
next
  case (Cons url urls)
  show ?case
    using download_file_net[of url "path_join d (basename url)" m w] Cons.IH
    by (auto simp: Let_def split: prod.splits sum.splits)
qed

lemma download_cell_net: "net (snd (download_cell d m c w)) = net w"
proof (cases c)
  case (CStr url)
  then show ?thesis
    using download_file_net[of url "path_join d (basename url)" m w]
    by (auto simp: Let_def split: prod.splits sum.splits)
next
  case (CList urls)
  then show ?thesis
    using download_list_net[of d m urls "[]" w]
    by (auto split: prod.splits sum.splits)
qed simp_all

lemma download_cols_net: "net (snd (download_cols row d m cols filenames w)) = net w"
proof (induction cols arbitrary: filenames w)
  case Nil
  then show ?case by simp
next
  case (Cons col cols)
  show ?case
    using download_cell_net[of d m "row_get row col" w] Cons.IH
    by (auto split: prod.splits sum.splits)
qed

lemma download_file_row_net: "net (snd (download_file_row row d m w)) = net w"
  by (simp add: download_file_row_def Let_def download_cols_net)

lemma progress_apply_net: "net (snd (progress_apply d rows w)) = net w"
proof (induction rows arbitrary: w)
  case Nil
  then show ?case by simp
next
  case (Cons row rows)
  obtain r w1 where p: "download_file_row row d 3 w = (r, w1)" by force
  have "net w1 = net w" using download_file_row_net[of row d 3 w] p by simp
  then show ?case using p Cons.IH[of w1] by (auto split: prod.splits sum.splits)
qed

lemma download_cell_raises:
  assumes "download_cell d m c w = (Inl e, w')" and "\<forall>u n x. net w u n \<noteq> OtherException x"
  shows "e = TypeError"
proof (cases "c = COther")
  case True
  with assms(1) show ?thesis by simp
next
  case False
  with download_cell_no_other[OF assms(2) False, of d m] assms(1) show ?thesis by auto
qed

lemma download_cols_unexpected:
  assumes "col \<in> set cols" and "row_get row col = COther"
  shows "\<exists>e w'. download_cols row d m cols filenames w = (Inl e, w') \<and>
           ((\<forall>u n x. net w u n \<noteq> OtherException x) \<longrightarrow> e = TypeError)"
  using assms(1)
proof (induction cols arbitrary: filenames w)
  case Nil
  then show ?case by simp
next
  case (Cons c cols)
  show ?case
  proof (cases "download_cell d m (row_get row c) w")
    case (Pair r w1)
    show ?thesis
    proof (cases r)
      case (Inl e)
      then show ?thesis using Pair download_cell_raises[of d m "row_get row c" w e w1] by auto
    next
      case (Inr v)
      with Pair assms(2) have "c \<noteq> col" by auto
      with Cons.prems have "col \<in> set cols" by simp
      from Cons.IH[OF this, of "filenames((''Paths'', c) \<mapsto> v)" w1]
      obtain e w' where
        e: "download_cols row d m cols (filenames((''Paths'', c) \<mapsto> v)) w1 = (Inl e, w')"
          "(\<forall>u n x. net w1 u n \<noteq> OtherException x) \<longrightarrow> e = TypeError"
        by blast
      have "net w1 = net w" using Pair download_cell_net[of d m "row_get row c" w] by simp
      with e have "download_cols row d m (c # cols) filenames w = (Inl e, w') \<and>
           ((\<forall>u n x. net w u n \<noteq> OtherException x) \<longrightarrow> e = TypeError)"
        using Pair Inr by simp
      then show ?thesis by blast
    qed
  qed
qed

lemma row_get_unexpected:
  assumes "(col, COther) \<in> set (items row)"
  shows "row_get row col = COther"
proof (rule ccontr)
  assume "row_get row col \<noteq> COther"
  with assms have "row_get row col = COther" by (rule row_get_item)
  with \<open>row_get row col \<noteq> COther\<close> show False by simp
qed

lemma progress_apply_prefix:
  assumes "progress_apply d pre w = (Inr ls, w0)"
    and "download_file_row row d 3 w0 = (Inl e, w1)"
  shows "progress_apply d (pre @ row # post) w = (Inl e, w1)"
  using assms
proof (induction pre arbitrary: ls w)
  case Nil
  then show ?case by simp
next
  case (Cons r pre)
  then show ?case by (auto split: prod.splits sum.splits)
qed

text \<open>
  Claim C6, amended. A row with a cell of an unexpected type makes \<open>download_file_row\<close>
  raise (a \<open>TypeError\<close>, unless a download before that cell raised an exception that is not
  a \<open>RequestException\<close>); nothing catches the exception, so \<open>progress_apply\<close> over a batch
  that holds the row after rows \<open>pre\<close> raises the same exception in the same world,
  whatever rows \<open>post\<close> follow: the rows after it are not processed.
\<close>

theorem unexpected_cell_aborts_batch:
  assumes "(col, COther) \<in> set (items row)"
    and "progress_apply dgs_path pre w = (Inr ls, w0)"
  shows "\<exists>e w1. download_file_row row dgs_path 3 w0 = (Inl e, w1) \<and>
           progress_apply dgs_path (pre @ row # post) w = (Inl e, w1) \<and>
           ((\<forall>u n x. net w u n \<noteq> OtherException x) \<longrightarrow> e = TypeError)"
proof -
  have c: "col \<in> set (map fst (items row))" using assms(1) by force
  have n: "net w0 = net w" using progress_apply_net[of dgs_path pre w] assms(2) by simp
  obtain e w1 where r: "download_file_row row dgs_path 3 w0 = (Inl e, w1)"
    and t: "(\<forall>u n x. net w0 u n \<noteq> OtherException x) \<longrightarrow> e = TypeError"
    unfolding download_file_row_def Let_def
    using download_cols_unexpected[OF c row_get_unexpected[OF assms(1)]] by blast
  from progress_apply_prefix[OF assms(2) r] r t n show ?thesis by auto
qed

text \<open>
  Counterexample to C6 as stated: in a batch of a bad row followed by a good one the
  \<open>TypeError\<close> leaves the whole batch and the world is untouched, so the good row,
  which alone would request its file, is never processed.
\<close>

theorem unexpected_cell_counterexample:
  "progress_apply ''/d'' [bad_row, good_row] up_world = (Inl TypeError, up_world) \<and>
   requests (snd (download_file_row good_row ''/d'' 3 up_world)) = [''http://h/b.ilex'']"
  by (simp add: bad_row_def good_row_def up_world_def download_file_row_def row_get_def
      download_file_def download_file_loop.simps Let_def truthy_def path_join_def basename_def)

text \<open>Witness for the amended C6: a good row, the bad row, a good row.\<close>

theorem unexpected_cell_aborts_batch_witness:
  "(''iLex'', COther) \<in> set (items bad_row) \<and>
   progress_apply ''/d'' [good_row] up_world =
     (Inr [[(''Paths'', ''base_dir'') \<mapsto> LStr ''/d/b__0'', (''Paths'', ''iLex'') \<mapsto> LStr ''b.ilex'']],
      up_world\<lparr>requests := [''http://h/b.ilex'']\<rparr>) \<and>
   progress_apply ''/d'' ([good_row] @ bad_row # [good_row]) up_world =
     (Inl TypeError, up_world\<lparr>requests := [''http://h/b.ilex'']\<rparr>)"
proof -
  have a: "(''iLex'', COther) \<in> set (items bad_row)" by (simp add: bad_row_def)
  have b: "progress_apply ''/d'' [good_row] up_world =
     (Inr [[(''Paths'', ''base_dir'') \<mapsto> LStr ''/d/b__0'', (''Paths'', ''iLex'') \<mapsto> LStr ''b.ilex'']],
      up_world\<lparr>requests := [''http://h/b.ilex'']\<rparr>)"
    by (simp add: good_row_def up_world_def download_file_row_def row_get_def
      download_file_def download_file_loop.simps Let_def truthy_def path_join_def basename_def)
  have c: "\<forall>u n x. net up_world u n \<noteq> OtherException x" by (simp add: up_world_def)
  have d: "download_file_row bad_row ''/d'' 3 (up_world\<lparr>requests := [''http://h/b.ilex'']\<rparr>) =
      (Inl TypeError, up_world\<lparr>requests := [''http://h/b.ilex'']\<rparr>)"
    by (simp add: bad_row_def download_file_row_def row_get_def Let_def)
  show ?thesis
    using a b d unexpected_cell_aborts_batch[OF a b, of "[good_row]"]
    by auto
qed

subsection \<open>Metadata extraction: the prober\<close>

lemma get_video_metadata_frame:
  "probe (snd (get_video_metadata p w)) = probe w \<and>
   probed (snd (get_video_metadata p w)) = probed w @ [p]"
  by (auto simp: get_video_metadata_def Let_def split: probe_result.splits sum.splits option.splits)

lemma get_video_metadata_probe_only:
  "probe w1 = probe w2 \<Longrightarrow> fst (get_video_metadata p w1) = fst (get_video_metadata p w2)"
  by (auto simp: get_video_metadata_def Let_def split: probe_result.splits sum.splits option.splits)

lemma get_video_metadata_logged:
  assumes "fst (get_video_metadata p w) = None"
  shows "(\<exists>streams. probe w p = ProbeOk streams \<and> find_video streams = Inr None \<and>
            printed (snd (get_video_metadata p w)) = printed w) \<or>
         (\<exists>e. printed (snd (get_video_metadata p w)) = printed w @ [(p, e)])"
  using assms
  by (auto simp: get_video_metadata_def Let_def split: probe_result.splits sum.splits option.splits)

lemma key_neq [simp]:
  "duration_key a \<noteq> dimensions_key b" "dimensions_key b \<noteq> duration_key a"
  "duration_key a = duration_key b \<longleftrightarrow> a = b"
  "dimensions_key a = dimensions_key b \<longleftrightarrow> a = b"
proof -
  have "last (a @ '' Duration'') \<noteq> last (b @ '' Dimensions'')" by simp
  then have "a @ '' Duration'' \<noteq> b @ '' Dimensions''" by metis
  then show "duration_key a \<noteq> dimensions_key b" "dimensions_key b \<noteq> duration_key a"
    by (auto simp: duration_key_def dimensions_key_def)
qed (simp_all add: duration_key_def dimensions_key_def)

subsection \<open>Metadata extraction: null paths and failing probes\<close>

lemma get_video_metadata_mono:
  assumes "get_video_metadata p w = (m, w1)"
  shows "probe w1 = probe w \<and> set (printed w) \<subseteq> set (printed w1)"
  using assms
  by (auto simp: get_video_metadata_def Let_def
      split: probe_result.splits sum.splits option.splits)

lemma extract_role_frame:
  assumes "extract_role bd row v md w = (r, w1)"
  shows "probe w1 = probe w \<and> set (printed w) \<subseteq> set (printed w1)"
proof (cases "map_of row v")
  case None
  with assms show ?thesis by (simp add: extract_role_def)
next
  case (Some filename)
  show ?thesis
  proof (cases "filename = PNaN")
    case True
    with Some assms show ?thesis by (simp add: extract_role_def)
  next
    case False
    show ?thesis
    proof (cases "os_path_join bd filename")
      case (Inl e)
      with Some False assms show ?thesis by (simp add: extract_role_def)
    next
      case (Inr path)
      obtain m w2 where g: "get_video_metadata path w = (m, w2)" by force
      have "w1 = w2" using Some False Inr g assms
        by (cases m) (auto simp: extract_role_def)
      with get_video_metadata_mono[OF g] show ?thesis by simp
    qed
  qed
qed

lemma extract_roles_frame:
  "extract_roles bd row vts md w = (r, w') \<Longrightarrow>
   probe w' = probe w \<and> set (printed w) \<subseteq> set (printed w')"
proof (induction vts arbitrary: md w)
  case Nil
  then show ?case by simp
next
  case (Cons v vts)
  obtain r1 w1 where s: "extract_role bd row v md w = (r1, w1)" by force
  note f = extract_role_frame[OF s]
  show ?case
  proof (cases r1)
    case (Inl e)
    with s Cons.prems f show ?thesis by simp
  next
    case (Inr md1)
    with s Cons.prems have "extract_roles bd row vts md1 w1 = (r, w')" by simp
    from Cons.IH[OF this] f show ?thesis by auto
  qed
qed

lemma extract_role_other_keys:
  assumes "extract_role bd row v md w = (Inr md1, w1)" and "v \<noteq> vt"
  shows "md1 (duration_key vt) = md (duration_key vt) \<and>
         md1 (dimensions_key vt) = md (dimensions_key vt)"
  using assms
  by (auto simp: extract_role_def split: option.splits if_splits sum.splits prod.splits)

lemma extract_roles_null:
  assumes "map_of row vt = Some PNaN"
    and "extract_roles bd row vts md w = (Inr md', w')"
    and "vt \<in> set vts \<or>
         (md (duration_key vt) = Some (MDuration None) \<and>
          md (dimensions_key vt) = Some (MDimensions (None, None)))"
  shows "md' (duration_key vt) = Some (MDuration None) \<and>
         md' (dimensions_key vt) = Some (MDimensions (None, None))"
  using assms(2,3)
proof (induction vts arbitrary: md w)
  case Nil
  then show ?case by simp
next
  case (Cons v vts)
  from Cons.prems(1) obtain md1 w1 where
    s: "extract_role bd row v md w = (Inr md1, w1)" and
    r: "extract_roles bd row vts md1 w1 = (Inr md', w')"
    by (auto split: prod.splits sum.splits)
  have "vt \<in> set vts \<or>
         (md1 (duration_key vt) = Some (MDuration None) \<and>
          md1 (dimensions_key vt) = Some (MDimensions (None, None)))"
  proof (cases "v = vt")
    case True
    with s assms(1) show ?thesis by (auto simp: extract_role_def)
  next
    case False
    from extract_role_other_keys[OF s False] Cons.prems(2) False show ?thesis by auto
  qed
  from Cons.IH[OF r this] show ?case .
qed

lemma extract_roles_failed:
  assumes "map_of row vt = Some (PStr f)"
    and "fst (get_video_metadata (path_join b f) w) = None"
    and "extract_roles (PStr b) row vts md w = (Inr md', w')"
    and "md (duration_key vt) = None" and "md (dimensions_key vt) = None"
  shows "md' (duration_key vt) = None \<and> md' (dimensions_key vt) = None"
  using assms(2-5)
proof (induction vts arbitrary: md w)
  case Nil
  then show ?case by simp
next
  case (Cons v vts)
  from Cons.prems(2) obtain md1 w1 where
    s: "extract_role (PStr b) row v md w = (Inr md1, w1)" and
    r: "extract_roles (PStr b) row vts md1 w1 = (Inr md', w')"
    by (auto split: prod.splits sum.splits)
  have p: "probe w1 = probe w" using extract_role_frame[OF s] by simp
  have g: "fst (get_video_metadata (path_join b f) w1) = None"
    using get_video_metadata_probe_only[OF p] Cons.prems(1) by simp
  have "md1 (duration_key vt) = None \<and> md1 (dimensions_key vt) = None"
  proof (cases "v = vt")
    case True
    with s assms(1) Cons.prems(1,3,4) show ?thesis
      by (auto simp: extract_role_def os_path_join_def split: prod.splits option.splits)
  next
    case False
    from extract_role_other_keys[OF s False] Cons.prems(3,4) show ?thesis by simp
  qed
  with Cons.IH[OF g r] show ?case by simp
qed

lemma extract_roles_total:
  assumes "map_of row ''base_dir'' = Some (PStr b)"
    and "list_all (\<lambda>video_type. case map_of row video_type of
                 Some PNaN \<Rightarrow> True | Some (PStr f) \<Rightarrow> True | _ \<Rightarrow> False) vts"
  shows "\<exists>md' w'. extract_roles (PStr b) row vts md w = (Inr md', w') \<and>
           probed w' = probed w @ role_paths row vts"
  using assms(2)
proof (induction vts arbitrary: md w)
  case Nil
  then show ?case by (simp add: role_paths_def)
next
  case (Cons v vts)
  from Cons.prems have v: "map_of row v = Some PNaN \<or> (\<exists>f. map_of row v = Some (PStr f))"
    and rest: "list_all (\<lambda>video_type. case map_of row video_type of
                 Some PNaN \<Rightarrow> True | Some (PStr f) \<Rightarrow> True | _ \<Rightarrow> False) vts"
    by (auto split: option.splits pval.splits)
  have "\<exists>md1 w1. extract_role (PStr b) row v md w = (Inr md1, w1) \<and>
          probed w1 = probed w @ role_paths row [v]"
  proof -
    from v show ?thesis
    proof
      assume "map_of row v = Some PNaN"
      then show ?thesis using assms(1) by (simp add: extract_role_def role_paths_def)
    next
      assume "\<exists>f. map_of row v = Some (PStr f)"
      then obtain f where f: "map_of row v = Some (PStr f)" by blast
      obtain m w1 where g: "get_video_metadata (path_join b f) w = (m, w1)" by force
      have "probed w1 = probed w @ [path_join b f]"
        using get_video_metadata_frame[of "path_join b f" w] g by simp
      then show ?thesis using f g assms(1)
        by (cases m) (auto simp: extract_role_def os_path_join_def role_paths_def)
    qed
  qed
  then obtain md1 w1 where s: "extract_role (PStr b) row v md w = (Inr md1, w1)"
    and p: "probed w1 = probed w @ role_paths row [v]" by blast
  from Cons.IH[OF rest, of md1 w1] obtain md' w' where
    "extract_roles (PStr b) row vts md1 w1 = (Inr md', w')"
    "probed w' = probed w1 @ role_paths row vts" by blast
  with s p show ?case by (simp add: role_paths_def)
qed

lemma extract_metadata_total:
  assumes "nan_object_row row"
  shows "\<exists>md w'. extract_metadata row w = (Inr md, w') \<and>
           probed w' = probed w @ role_paths row video_types"
proof -
  from assms obtain b where b: "map_of row ''base_dir'' = Some (PStr b)"
    by (auto simp: nan_object_row_def split: option.splits pval.splits)
  from assms have "list_all (\<lambda>video_type. case map_of row video_type of
                 Some PNaN \<Rightarrow> True | Some (PStr f) \<Rightarrow> True | _ \<Rightarrow> False) video_types"
    by (simp add: nan_object_row_def)
  from extract_roles_total[OF b this, of Map.empty w] show ?thesis
    by (simp add: extract_metadata_def b)
qed

lemma metadata_apply_total:
  assumes "list_all nan_object_row rows"
  shows "\<exists>mds w'. metadata_apply rows w = (Inr mds, w') \<and> length mds = length rows"
  using assms
proof (induction rows arbitrary: w)
  case Nil
  then show ?case by simp
next
  case (Cons row rows)
  then obtain md w1 where m: "extract_metadata row w = (Inr md, w1)"
    using extract_metadata_total[of row w] by auto
  from Cons obtain mds w' where "metadata_apply rows w1 = (Inr mds, w')" "length mds = length rows"
    by fastforce
  with m show ?case by simp
qed

text \<open>
  On a row whose null roles are the object \<open>np.nan\<close>, a null role gets the duration
  \<open>None\<close> and the dimensions \<open>(None, None)\<close>, and the prober is called on the paths
  of the roles with a file name only.
\<close>

lemma extract_metadata_nan_object:
  assumes "nan_object_row row" and "video_type \<in> set video_types"
    and "map_of row video_type = Some PNaN"
  shows "(\<exists>md w'. extract_metadata row w = (Inr md, w') \<and>
            md (duration_key video_type) = Some (MDuration None) \<and>
            md (dimensions_key video_type) = Some (MDimensions (None, None)) \<and>
            probed w' = probed w @ role_paths row video_types) \<and>
         role_paths row [video_type] = [] \<and>
         extract_role base_dir row video_type metadata_dict w =
           (Inr (metadata_dict(duration_key video_type \<mapsto> MDuration None,
                   dimensions_key video_type \<mapsto> MDimensions (None, None))), w)"
proof -
  obtain md w' where m: "extract_metadata row w = (Inr md, w')"
    and p: "probed w' = probed w @ role_paths row video_types"
    using extract_metadata_total[OF assms(1), of w] by blast
  obtain b where b: "map_of row ''base_dir'' = Some (PStr b)"
    using assms(1) by (auto simp: nan_object_row_def split: option.splits pval.splits)
  have "extract_roles (PStr b) row video_types Map.empty w = (Inr md, w')"
    using m b by (simp add: extract_metadata_def)
  from extract_roles_null[OF assms(3) this] assms(2)
  have "md (duration_key video_type) = Some (MDuration None) \<and>
        md (dimensions_key video_type) = Some (MDimensions (None, None))" by blast
  moreover have "role_paths row [video_type] = []"
    using assms(3) by (simp add: role_paths_def split: option.splits pval.splits)
  moreover have "extract_role base_dir row video_type metadata_dict w =
           (Inr (metadata_dict(duration_key video_type \<mapsto> MDuration None,
                   dimensions_key video_type \<mapsto> MDimensions (None, None))), w)"
    using assms(3) by (simp add: extract_role_def)
  ultimately show ?thesis using m p by blast
qed

lemma get_video_metadata_lines:
  "\<exists>ls. printed (snd (get_video_metadata p w)) = printed w @ ls \<and> fst ` set ls \<subseteq> {p} \<and>
     ((\<exists>streams. probe w p = ProbeOk streams \<and> find_video streams = Inr None) \<longrightarrow> ls = [])"
  by (auto simp: get_video_metadata_def Let_def
      split: probe_result.splits sum.splits option.splits)

lemma extract_role_lines:
  assumes "extract_role bd row v md w = (r, w1)"
  shows "\<exists>ls. printed w1 = printed w @ ls \<and>
     ((\<exists>streams. probe w p = ProbeOk streams \<and> find_video streams = Inr None) \<longrightarrow>
        p \<notin> fst ` set ls)"
proof (cases "map_of row v")
  case None
  with assms show ?thesis by (simp add: extract_role_def)
next
  case (Some filename)
  show ?thesis
  proof (cases "filename = PNaN")
    case True
    with Some assms show ?thesis by (simp add: extract_role_def)
  next
    case False
    show ?thesis
    proof (cases "os_path_join bd filename")
      case (Inl e)
      with Some False assms show ?thesis by (simp add: extract_role_def)
    next
      case (Inr path)
      obtain m w2 where g: "get_video_metadata path w = (m, w2)" by force
      have w: "w1 = w2" using Some False Inr g assms
        by (cases m) (auto simp: extract_role_def)
      from get_video_metadata_lines[of path w] g obtain ls where
        ls: "printed w2 = printed w @ ls" "fst ` set ls \<subseteq> {path}"
          "(\<exists>streams. probe w path = ProbeOk streams \<and> find_video streams = Inr None) \<longrightarrow>
             ls = []"
        by auto
      have "(\<exists>streams. probe w p = ProbeOk streams \<and> find_video streams = Inr None) \<longrightarrow>
              p \<notin> fst ` set ls"
      proof (cases "p = path")
        case True
        with ls(3) show ?thesis by auto
      next
        case False
        with ls(2) show ?thesis by auto
      qed
      with ls(1) w show ?thesis by blast
    qed
  qed
qed

lemma extract_roles_lines:
  assumes "extract_roles bd row vts md w = (r, w')"
  shows "\<exists>ls. printed w' = printed w @ ls \<and>
     ((\<exists>streams. probe w p = ProbeOk streams \<and> find_video streams = Inr None) \<longrightarrow>
        p \<notin> fst ` set ls)"
  using assms
proof (induction vts arbitrary: md w)
  case Nil
  then show ?case by simp
next
  case (Cons v vts)
  obtain r1 w1 where s: "extract_role bd row v md w = (r1, w1)" by force
  from extract_role_lines[OF s, of p] obtain ls1 where
    l1: "printed w1 = printed w @ ls1"
      "(\<exists>streams. probe w p = ProbeOk streams \<and> find_video streams = Inr None) \<longrightarrow>
         p \<notin> fst ` set ls1"
    by blast
  have pr: "probe w1 = probe w" using extract_role_frame[OF s] by simp
  show ?case
  proof (cases r1)
    case (Inl e)
    with s Cons.prems have "w' = w1" by simp
    with l1 show ?thesis by blast
  next
    case (Inr md1)
    with s Cons.prems have "extract_roles bd row vts md1 w1 = (r, w')" by simp
    from Cons.IH[OF this] obtain ls2 where
      l2: "printed w' = printed w1 @ ls2"
        "(\<exists>streams. probe w1 p = ProbeOk streams \<and> find_video streams = Inr None) \<longrightarrow>
           p \<notin> fst ` set ls2"
      by blast
    have "printed w' = printed w @ (ls1 @ ls2)" using l1(1) l2(1) by simp
    moreover have "(\<exists>streams. probe w p = ProbeOk streams \<and> find_video streams = Inr None) \<longrightarrow>
        p \<notin> fst ` set (ls1 @ ls2)"
      using l1(2) l2(2) pr by auto
    ultimately show ?thesis by blast
  qed
qed

lemma extract_roles_logged:
  assumes "map_of row vt = Some (PStr f)"
    and "fst (get_video_metadata (path_join b f) w) = None"
    and "extract_roles (PStr b) row vts md w = (Inr md', w')"
    and "vt \<in> set vts"
    and "\<not> (\<exists>streams. probe w (path_join b f) = ProbeOk streams \<and>
            find_video streams = Inr None)"
  shows "\<exists>ls. printed w' = printed w @ ls \<and> path_join b f \<in> fst ` set ls"
  using assms(2-5)
proof (induction vts arbitrary: md w)
  case Nil
  then show ?case by simp
next
  case (Cons v vts)
  from Cons.prems(2) obtain md1 w1 where
    s: "extract_role (PStr b) row v md w = (Inr md1, w1)" and
    r: "extract_roles (PStr b) row vts md1 w1 = (Inr md', w')"
    by (auto split: prod.splits sum.splits)
  have p: "probe w1 = probe w" using extract_role_frame[OF s] by simp
  show ?case
  proof (cases "v = vt")
    case True
    have w1: "w1 = snd (get_video_metadata (path_join b f) w)"
      using s True assms(1) Cons.prems(1)
      by (auto simp: extract_role_def os_path_join_def split: prod.splits option.splits)
    from get_video_metadata_logged[OF Cons.prems(1)] Cons.prems(4) obtain e where
      "printed (snd (get_video_metadata (path_join b f) w)) = printed w @ [(path_join b f, e)]"
      by blast
    then have a: "printed w1 = printed w @ [(path_join b f, e)]" unfolding w1 .
    from extract_roles_lines[OF r, of "path_join b f"] obtain ls2 where
      "printed w' = printed w1 @ ls2" by blast
    with a have "printed w' = printed w @ ((path_join b f, e) # ls2)" by simp
    moreover have "path_join b f \<in> fst ` set ((path_join b f, e) # ls2)" by simp
    ultimately show ?thesis by blast
  next
    case False
    with Cons.prems(3) have i: "vt \<in> set vts" by simp
    have g: "fst (get_video_metadata (path_join b f) w1) = None"
      using get_video_metadata_probe_only[OF p] Cons.prems(1) by simp
    have n: "\<not> (\<exists>streams. probe w1 (path_join b f) = ProbeOk streams \<and>
            find_video streams = Inr None)"
      using Cons.prems(4) p by simp
    from Cons.IH[OF g r i n] obtain ls2 where
      l2: "printed w' = printed w1 @ ls2" "path_join b f \<in> fst ` set ls2" by blast
    from extract_role_lines[OF s, of "path_join b f"] obtain ls1 where
      "printed w1 = printed w @ ls1" by blast
    with l2 have "printed w' = printed w @ (ls1 @ ls2)"
      "path_join b f \<in> fst ` set (ls1 @ ls2)" by auto
    then show ?thesis by blast
  qed
qed

text \<open>
  Claim C5, amended. For a row whose null roles are the object \<open>np.nan\<close> and a role
  with a file name whose probing fails (\<open>get_video_metadata\<close> returns \<open>None\<close>),
  \<open>extract_metadata\<close> still returns, the record has no entry for the role's duration
  and none for its dimensions, and every role with a file name has been probed. Of the
  lines \<open>ls\<close> that the call prints, none names the file when the probe found no video
  stream, and one names it in every other case of failure. The batch over any list of
  such rows returns one record per row.
\<close>

theorem extract_metadata_probe_failure:
  assumes "nan_object_row row" and "map_of row ''base_dir'' = Some (PStr b)"
    and "video_type \<in> set video_types" and "map_of row video_type = Some (PStr f)"
    and "fst (get_video_metadata (path_join b f) w) = None"
  shows "(\<exists>md w' ls. extract_metadata row w = (Inr md, w') \<and>
            md (duration_key video_type) = None \<and> md (dimensions_key video_type) = None \<and>
            probed w' = probed w @ role_paths row video_types \<and>
            printed w' = printed w @ ls \<and>
            (if \<exists>streams. probe w (path_join b f) = ProbeOk streams \<and>
                  find_video streams = Inr None
             then path_join b f \<notin> fst ` set ls
             else path_join b f \<in> fst ` set ls)) \<and>
         (\<forall>rows. list_all nan_object_row rows \<longrightarrow>
            (\<exists>mds w'. metadata_apply rows w = (Inr mds, w') \<and> length mds = length rows))"
proof -
  obtain md w' where m: "extract_metadata row w = (Inr md, w')"
    and p: "probed w' = probed w @ role_paths row video_types"
    using extract_metadata_total[OF assms(1), of w] by blast
  have r: "extract_roles (PStr b) row video_types Map.empty w = (Inr md, w')"
    using m assms(2) by (simp add: extract_metadata_def)
  have k: "md (duration_key video_type) = None \<and> md (dimensions_key video_type) = None"
    using extract_roles_failed[OF assms(4,5) r] by simp
  from extract_roles_lines[OF r, of "path_join b f"] obtain ls where
    ls: "printed w' = printed w @ ls"
      "(\<exists>streams. probe w (path_join b f) = ProbeOk streams \<and> find_video streams = Inr None)
         \<longrightarrow> path_join b f \<notin> fst ` set ls"
    by blast
  have "\<not> (\<exists>streams. probe w (path_join b f) = ProbeOk streams \<and>
            find_video streams = Inr None) \<longrightarrow> path_join b f \<in> fst ` set ls"
  proof
    assume n: "\<not> (\<exists>streams. probe w (path_join b f) = ProbeOk streams \<and>
            find_video streams = Inr None)"
    from extract_roles_logged[OF assms(4,5) r assms(3) n] obtain ls' where
      "printed w' = printed w @ ls'" "path_join b f \<in> fst ` set ls'" by blast
    with ls(1) show "path_join b f \<in> fst ` set ls" by simp
  qed
  with ls have l: "if \<exists>streams. probe w (path_join b f) = ProbeOk streams \<and>
                  find_video streams = Inr None
             then path_join b f \<notin> fst ` set ls
             else path_join b f \<in> fst ` set ls"
    by auto
  have "\<forall>rows. list_all nan_object_row rows \<longrightarrow>
            (\<exists>mds w'. metadata_apply rows w = (Inr mds, w') \<and> length mds = length rows)"
    using metadata_apply_total by blast
  with m k p ls(1) l show ?thesis by blast
qed

text \<open>Witness for the amended C5: the file of the third role cannot be probed.\<close>

theorem extract_metadata_probe_failure_witness:
  "nan_object_row example_ledger_row \<and>
   map_of example_ledger_row ''base_dir'' = Some (PStr ''/d/a__0'') \<and>
   ''Video Total'' \<in> set video_types \<and>
   map_of example_ledger_row ''Video Total'' = Some (PStr ''t.mp4'') \<and>
   fst (get_video_metadata (path_join ''/d/a__0'' ''t.mp4'') one_video_world) = None \<and>
   extract_metadata example_ledger_row one_video_world =
     (Inr [duration_key ''Video A'' \<mapsto> MDuration (Some (25 / 2)),
           dimensions_key ''Video A'' \<mapsto> MDimensions (Some 1280, Some 720),
           duration_key ''Video B'' \<mapsto> MDuration None,
           dimensions_key ''Video B'' \<mapsto> MDimensions (None, None),
           duration_key ''Video AB'' \<mapsto> MDuration None,
           dimensions_key ''Video AB'' \<mapsto> MDimensions (None, None)],
      one_video_world\<lparr>probed := [''/d/a__0/a.mp4'', ''/d/a__0/t.mp4''],
        printed := [(''/d/a__0/t.mp4'', ''ffprobe error'')]\<rparr>) \<and>
   (\<exists>mds w'. metadata_apply [example_ledger_row, example_ledger_row] one_video_world =
      (Inr mds, w') \<and> length mds = length [example_ledger_row, example_ledger_row])"
proof -
  have a: "nan_object_row example_ledger_row"
    by (simp add: nan_object_row_def example_ledger_row_def video_types_def)
  have b: "map_of example_ledger_row ''base_dir'' = Some (PStr ''/d/a__0'')"
    by (simp add: example_ledger_row_def)
  have c: "''Video Total'' \<in> set video_types" by (simp add: video_types_def)
  have d: "map_of example_ledger_row ''Video Total'' = Some (PStr ''t.mp4'')"
    by (simp add: example_ledger_row_def)
  have e: "fst (get_video_metadata (path_join ''/d/a__0'' ''t.mp4'') one_video_world) = None"
    by (simp add: get_video_metadata_def one_video_world_def path_join_def Let_def)
  have f: "extract_metadata example_ledger_row one_video_world =
     (Inr [duration_key ''Video A'' \<mapsto> MDuration (Some (25 / 2)),
           dimensions_key ''Video A'' \<mapsto> MDimensions (Some 1280, Some 720),
           duration_key ''Video B'' \<mapsto> MDuration None,
           dimensions_key ''Video B'' \<mapsto> MDimensions (None, None),
           duration_key ''Video AB'' \<mapsto> MDuration None,
           dimensions_key ''Video AB'' \<mapsto> MDimensions (None, None)],
      one_video_world\<lparr>probed := [''/d/a__0/a.mp4'', ''/d/a__0/t.mp4''],
        printed := [(''/d/a__0/t.mp4'', ''ffprobe error'')]\<rparr>)"
    by (simp add: extract_metadata_def example_ledger_row_def video_types_def extract_role_def
        os_path_join_def path_join_def get_video_metadata_def one_video_world_def Let_def
        audio_stream_def video_stream_a_def)
  have g: "list_all nan_object_row [example_ledger_row, example_ledger_row]" using a by simp
  have h: "\<exists>mds w'. metadata_apply [example_ledger_row, example_ledger_row] one_video_world =
      (Inr mds, w') \<and> length mds = length [example_ledger_row, example_ledger_row]"
    using extract_metadata_probe_failure[OF a b c d e, THEN conjunct2] g by blast
  show ?thesis
    using a b c d e f h by blast
qed

text \<open>
  Counterexample to C5 as stated: a file with an audio stream only. Probing it fails,
  the record has no entry for the role, and nothing at all is printed.
\<close>

theorem probe_failure_logged_counterexample:
  "nan_object_row example_ledger_row \<and>
   map_of example_ledger_row ''Video A'' = Some (PStr ''a.mp4'') \<and>
   fst (get_video_metadata (path_join ''/d/a__0'' ''a.mp4'') audio_only_world) = None \<and>
   fst (extract_metadata example_ledger_row audio_only_world) =
     Inr [duration_key ''Video B'' \<mapsto> MDuration None,
          dimensions_key ''Video B'' \<mapsto> MDimensions (None, None),
          duration_key ''Video AB'' \<mapsto> MDuration None,
          dimensions_key ''Video AB'' \<mapsto> MDimensions (None, None)] \<and>
   printed (snd (extract_metadata example_ledger_row audio_only_world)) = []"
  by (simp add: nan_object_row_def extract_metadata_def example_ledger_row_def video_types_def
      extract_role_def os_path_join_def path_join_def get_video_metadata_def
      audio_only_world_def Let_def audio_stream_def)

lemma t1: "str_nat 0 = ''0''" "str_nat 1 = ''1''" "str_nat 45 = ''45''" "str_nat 120 = ''120''"
  by (simp_all add: str_nat.simps digit_char_def)

subsection \<open>The ledger file written and read back\<close>

lemma hex_digit_plain: "d < 16 \<Longrightarrow> \<not> control_char (hex_digit d)"
proof -
  assume "d < 16"
  then have "hex_digit d \<in> set ''0123456789abcdef''"
    unfolding hex_digit_def by (intro nth_mem) simp
  then show ?thesis by (auto simp: control_char_def)
qed

lemma repr_char_plain:
  assumes "\<not> control_char quote" and "x \<in> set (repr_char quote c)"
  shows "\<not> control_char x"
proof -
  have "(of_char c :: nat) mod 256 = of_char c" by (rule of_char_mod_256)
  then have "(of_char c :: nat) < 256" by (metis mod_less_divisor zero_less_numeral)
  then have a: "(of_char c :: nat) div 16 < 16" by arith
  have b: "(of_char c :: nat) mod 16 < 16" by simp
  have k: "\<not> control_char (CHR 0x5C)" "\<not> control_char (CHR ''n'')" "\<not> control_char (CHR ''r'')"
    "\<not> control_char (CHR ''t'')" "\<not> control_char (CHR ''x'')"
    by (simp_all add: control_char_def)
  show ?thesis
    using assms k hex_digit_plain[OF a] hex_digit_plain[OF b]
    by (auto simp: repr_char_def split: if_splits)
qed

lemma py_repr_str_plain:
  assumes "x \<in> set (py_repr_str s)"
  shows "\<not> control_char x"
proof -
  define quote where
    "quote = (if CHR 0x27 \<in> set s \<and> CHR 0x22 \<notin> set s then CHR 0x22 else CHR 0x27)"
  have q: "\<not> control_char quote" by (simp add: quote_def control_char_def)
  have "py_repr_str s = [quote] @ concat (map (repr_char quote) s) @ [quote]"
    by (simp add: py_repr_str_def quote_def Let_def)
  with assms have "x = quote \<or> (\<exists>c\<in>set s. x \<in> set (repr_char quote c))" by auto
  then show ?thesis
  proof
    assume "x = quote"
    with q show ?thesis by simp
  next
    assume "\<exists>c\<in>set s. x \<in> set (repr_char quote c)"
    then obtain c where "x \<in> set (repr_char quote c)" by blast
    with q show ?thesis by (rule repr_char_plain)
  qed
qed

lemma join_plain:
  assumes "\<forall>c\<in>set sep. \<not> control_char c"
    and "\<forall>x\<in>set xs. \<forall>c\<in>set x. \<not> control_char c"
    and "c \<in> set (join sep xs)"
  shows "\<not> control_char c"
  using assms
proof (induction sep xs rule: join.induct)
  case (1 sep)
  then show ?case by simp
next
  case (2 sep x)
  then show ?case by simp
next
  case (3 sep x y ys)
  from "3.prems"(3) have "c \<in> set x \<or> c \<in> set sep \<or> c \<in> set (join sep (y # ys))"
    by simp
  then show ?case
  proof (elim disjE)
    assume "c \<in> set x"
    with "3.prems"(2) show ?thesis by simp
  next
    assume "c \<in> set sep"
    with "3.prems"(1) show ?thesis by simp
  next
    assume m: "c \<in> set (join sep (y # ys))"
    have "\<forall>x\<in>set (y # ys). \<forall>c\<in>set x. \<not> control_char c" using "3.prems"(2) by simp
    from "3.IH"[OF "3.prems"(1) this m] show ?thesis .
  qed
qed

lemma py_repr_item_plain:
  assumes "c \<in> set (py_repr_item p)"
  shows "\<not> control_char c"
proof (cases p)
  case None
  with assms have "c \<in> set ''None''" by (simp add: py_repr_item_def)
  then show ?thesis by (auto simp: control_char_def)
next
  case (Some s)
  with assms have "c \<in> set (py_repr_str s)" by (simp add: py_repr_item_def)
  then show ?thesis by (rule py_repr_str_plain)
qed

lemma py_repr_list_plain:
  assumes "c \<in> set (py_repr_list paths)"
  shows "\<not> control_char c"
proof -
  from assms have "c = CHR ''['' \<or> c = CHR '']'' \<or>
      c \<in> set (join '', '' (map py_repr_item paths))"
    by (auto simp: py_repr_list_def)
  then show ?thesis
  proof (elim disjE)
    assume "c = CHR ''[''"
    then show ?thesis by (simp add: control_char_def)
  next
    assume "c = CHR '']''"
    then show ?thesis by (simp add: control_char_def)
  next
    assume m: "c \<in> set (join '', '' (map py_repr_item paths))"
    have s: "\<forall>c\<in>set '', ''. \<not> control_char c" by (simp add: control_char_def)
    have i: "\<forall>x\<in>set (map py_repr_item paths). \<forall>c\<in>set x. \<not> control_char c"
      using py_repr_item_plain by auto
    from join_plain[OF s i m] show ?thesis .
  qed
qed

lemma na_field_hd: "na_field f \<Longrightarrow> f = [] \<or> hd f \<noteq> CHR ''[''"
  by (auto simp: na_field_def na_values_def)

lemma text_field_repr_list: "text_field (py_repr_list paths)"
proof -
  have "\<not> na_field (py_repr_list paths)"
    using na_field_hd[of "py_repr_list paths"] by (auto simp: py_repr_list_def)
  moreover have "CHR ''['' \<in> set (py_repr_list paths)" by (simp add: py_repr_list_def)
  then have "list_ex (\<lambda>c. c \<notin> set ''0123456789+-.eE infinityINFINITYtrueTRUEfalseFALSE'')
      (py_repr_list paths)"
    unfolding list_ex_iff by (intro bexI[of _ "CHR ''[''"]) simp_all
  moreover have "\<not> list_ex control_char (py_repr_list paths)"
    unfolding list_ex_iff using py_repr_list_plain by blast
  ultimately show ?thesis
    by (simp add: text_field_def)
qed

lemma na_field_empty: "na_field []"
  by (simp add: na_field_def na_values_def)

lemma to_csv_field_kind:
  assumes "case v of LStr s \<Rightarrow> na_field s \<or> text_field s | _ \<Rightarrow> True"
  shows "na_field (to_csv_field v) \<or> text_field (to_csv_field v)"
  using assms by (cases v) (simp_all add: na_field_empty text_field_repr_list)

lemma text_column_kind:
  assumes "text_column col" and "v \<in> set col"
  shows "na_field (to_csv_field v) \<or> text_field (to_csv_field v)"
proof (rule to_csv_field_kind)
  show "case v of LStr s \<Rightarrow> na_field s \<or> text_field s | _ \<Rightarrow> True"
    using assms by (cases v) (auto simp: text_column_def list_all_iff)
qed

lemma text_field_not_na: "text_field f \<Longrightarrow> \<not> na_field f"
  by (simp add: text_field_def)

text \<open>
  Claim C3, amended. For a column of the persisted table that holds \<open>None\<close>, strings and
  lists, every string cell being a missing marker or text and the strings in the lists
  being ASCII, writing the column with \<open>to_csv\<close> and reading it back with
  \<open>read_csv\<close> gives a value for every row, and: a string that
  is no missing marker comes back as the same string; \<open>None\<close>, and a string that is a
  missing marker, come back as a NaN (the object \<open>np.nan\<close> or a float NaN), not as
  \<open>None\<close>; a list comes back as the string that Python prints for it, not as a list.
\<close>

theorem reload_column_values:
  assumes "text_column col" and "i < length col"
  shows "\<exists>vals. reload_column col = Some vals \<and> length vals = length col \<and>
           (case col ! i of
              LNone \<Rightarrow> vals ! i = PNaN \<or> vals ! i = PFloatNaN
            | LStr s \<Rightarrow>
                if na_field s then vals ! i = PNaN \<or> vals ! i = PFloatNaN
                else vals ! i = PStr s
            | LList paths \<Rightarrow> vals ! i = PStr (py_repr_list paths))"
proof -
  define texts where "texts = map to_csv_field col"
  have k: "list_all (\<lambda>f. na_field f \<or> text_field f) texts"
    using text_column_kind[OF assms(1)]
    by (auto simp: texts_def list_all_iff)
  have n: "texts ! i = to_csv_field (col ! i)" using assms(2) by (simp add: texts_def)
  have l: "length texts = length col" by (simp add: texts_def)
  show ?thesis
  proof (cases "list_all na_field texts")
    case True
    then have r: "reload_column col = Some (map (\<lambda>f. PFloatNaN) texts)"
      by (simp add: reload_column_def read_csv_column_def texts_def)
    have "na_field (texts ! i)" using True assms(2) l by (simp add: list_all_length)
    then have na: "na_field (to_csv_field (col ! i))" using n by simp
    have "case col ! i of
              LNone \<Rightarrow> map (\<lambda>f. PFloatNaN) texts ! i = PNaN \<or>
                        map (\<lambda>f. PFloatNaN) texts ! i = PFloatNaN
            | LStr s \<Rightarrow>
                if na_field s then map (\<lambda>f. PFloatNaN) texts ! i = PNaN \<or>
                                   map (\<lambda>f. PFloatNaN) texts ! i = PFloatNaN
                else map (\<lambda>f. PFloatNaN) texts ! i = PStr s
            | LList paths \<Rightarrow> map (\<lambda>f. PFloatNaN) texts ! i = PStr (py_repr_list paths)"
      using na assms(2) l text_field_not_na[OF text_field_repr_list]
      by (cases "col ! i") auto
    with r l show ?thesis by auto
  next
    case False
    with k have r: "reload_column col =
        Some (map (\<lambda>f. if na_field f then PNaN else PStr f) texts)"
      by (simp add: reload_column_def read_csv_column_def texts_def)
    have v: "map (\<lambda>f. if na_field f then PNaN else PStr f) texts ! i =
        (if na_field (to_csv_field (col ! i)) then PNaN else PStr (to_csv_field (col ! i)))"
      using assms(2) l n by simp
    have "case col ! i of
              LNone \<Rightarrow> map (\<lambda>f. if na_field f then PNaN else PStr f) texts ! i = PNaN \<or>
                        map (\<lambda>f. if na_field f then PNaN else PStr f) texts ! i = PFloatNaN
            | LStr s \<Rightarrow>
                if na_field s
                then map (\<lambda>f. if na_field f then PNaN else PStr f) texts ! i = PNaN \<or>
                     map (\<lambda>f. if na_field f then PNaN else PStr f) texts ! i = PFloatNaN
                else map (\<lambda>f. if na_field f then PNaN else PStr f) texts ! i = PStr s
            | LList paths \<Rightarrow>
                map (\<lambda>f. if na_field f then PNaN else PStr f) texts ! i =
                  PStr (py_repr_list paths)"
      unfolding v using text_field_not_na[OF text_field_repr_list]
      by (cases "col ! i") (auto simp: na_field_empty)
    with r l show ?thesis by auto
  qed
qed

lemma srt_list_text:
  "py_repr_list [Some ''1.srt'', None] = ''['' @ [CHR 0x27] @ ''1.srt'' @ [CHR 0x27] @ '', None]''"
  by (simp add: py_repr_list_def py_repr_item_def py_repr_str_def repr_char_def Let_def
      control_char_def)

text \<open>
  Witness for the amended C3: a column with a file name, a list with a failed position,
  and a null.
\<close>

theorem reload_column_values_witness:
  "text_column srt_column \<and> (1::nat) < length srt_column \<and>
   (\<exists>vals. reload_column srt_column = Some vals \<and> length vals = length srt_column \<and>
      vals ! 1 = PStr (''['' @ [CHR 0x27] @ ''1.srt'' @ [CHR 0x27] @ '', None]''))"
proof -
  have t: "text_field ''dgs_1.srt''"
    by (simp add: text_field_def na_field_def na_values_def control_char_def)
  have a: "text_column srt_column"
    by (simp add: text_column_def srt_column_def t ascii_string_def)
  have b: "(1::nat) < length srt_column" by (simp add: srt_column_def)
  have c: "srt_column ! 1 = LList [Some ''1.srt'', None]" by (simp add: srt_column_def)
  from reload_column_values[OF a b] obtain vals where
    "reload_column srt_column = Some vals" "length vals = length srt_column"
    "vals ! 1 = PStr (py_repr_list [Some ''1.srt'', None])"
    unfolding c by auto
  then have "\<exists>vals. reload_column srt_column = Some vals \<and> length vals = length srt_column \<and>
      vals ! 1 = PStr (''['' @ [CHR 0x27] @ ''1.srt'' @ [CHR 0x27] @ '', None]'')"
    unfolding srt_list_text by blast
  with a b show ?thesis by blast
qed

text \<open>
  Counterexample to C3 as stated: of a column with a file name, a list and a null, the
  file name alone comes back as it was. The list comes back as a string, the null as
  \<open>np.nan\<close>; a list of the catalog comes back as a string too; and a column of nulls
  comes back as float NaNs.
\<close>

theorem reload_column_counterexample:
  "reload_column srt_column =
     Some [PStr ''dgs_1.srt'',
           PStr (''['' @ [CHR 0x27] @ ''1.srt'' @ [CHR 0x27] @ '', None]''),
           PNaN] \<and>
   map_option (\<lambda>v. reload_column [v]) (python_value (CList [''h/1.srt'', ''h/2.srt''])) =
     Some (Some [PStr (''['' @ [CHR 0x27] @ ''h/1.srt'' @ [CHR 0x27] @ '', '' @
                        [CHR 0x27] @ ''h/2.srt'' @ [CHR 0x27] @ '']'')]) \<and>
   reload_column video_ab_column = Some [PFloatNaN, PFloatNaN, PFloatNaN]"
proof -
  have t: "text_field ''dgs_1.srt''"
    by (simp add: text_field_def na_field_def na_values_def control_char_def)
  have n: "\<not> na_field ''dgs_1.srt''" using t by (rule text_field_not_na)
  have l: "text_field (py_repr_list [Some ''1.srt'', None])" by (rule text_field_repr_list)
  have a: "reload_column srt_column =
     Some [PStr ''dgs_1.srt'', PStr (py_repr_list [Some ''1.srt'', None]), PNaN]"
    using t n l text_field_not_na[OF l]
    by (simp add: reload_column_def read_csv_column_def srt_column_def na_field_empty)
  have l2: "text_field (py_repr_list [Some ''h/1.srt'', Some ''h/2.srt''])"
    by (rule text_field_repr_list)
  have b: "reload_column [LList [Some ''h/1.srt'', Some ''h/2.srt'']] =
     Some [PStr (py_repr_list [Some ''h/1.srt'', Some ''h/2.srt''])]"
    using l2 text_field_not_na[OF l2]
    by (simp add: reload_column_def read_csv_column_def)
  have r2: "py_repr_list [Some ''h/1.srt'', Some ''h/2.srt''] =
      ''['' @ [CHR 0x27] @ ''h/1.srt'' @ [CHR 0x27] @ '', '' @
                        [CHR 0x27] @ ''h/2.srt'' @ [CHR 0x27] @ '']''"
    by (simp add: py_repr_list_def py_repr_item_def py_repr_str_def repr_char_def Let_def
      control_char_def)
  have c: "reload_column video_ab_column = Some [PFloatNaN, PFloatNaN, PFloatNaN]"
    by (simp add: reload_column_def read_csv_column_def video_ab_column_def na_field_empty)
  show ?thesis
    using a b c unfolding srt_list_text r2 by simp
qed

text \<open>
  Claim C4, at a failing input. In a ledger in which no row has a file for the role
  \<open>Video AB\<close> the column of the role is read back as float NaNs. For such a null the
  test \<open>filename is np.nan\<close> fails, the iteration for the role calls \<open>os.path.join\<close> on
  it and raises \<open>TypeError\<close> (without a call of the prober and without a null metadata
  value), and so does \<open>extract_metadata\<close> for the row.
\<close>

theorem null_path_float_nan_raises:
  "reload_column video_ab_column = Some [PFloatNaN, PFloatNaN, PFloatNaN] \<and>
   map_of float_nan_row ''Video AB'' = Some PFloatNaN \<and>
   extract_role (PStr ''/d/a__0'') float_nan_row ''Video AB'' Map.empty one_video_world =
     (Inl TypeError, one_video_world) \<and>
   fst (extract_metadata float_nan_row one_video_world) = Inl TypeError"
  by (simp add: reload_column_def read_csv_column_def video_ab_column_def na_field_empty
      float_nan_row_def extract_metadata_def video_types_def extract_role_def
      os_path_join_def path_join_def get_video_metadata_def one_video_world_def Let_def
      audio_stream_def video_stream_a_def)

subsection \<open>Identifiers\<close>

lemma str_nat_small: "n < 10 \<Longrightarrow> str_nat n = [digit_char n]"
  by (simp add: str_nat.simps)

lemma digit_chars:
  "digit_char 0 = CHR ''0''" "digit_char (Suc 0) = CHR ''1''" "digit_char 2 = CHR ''2''"
  "digit_char 3 = CHR ''3''" "digit_char 4 = CHR ''4''" "digit_char 5 = CHR ''5''"
  "digit_char 6 = CHR ''6''" "digit_char 7 = CHR ''7''" "digit_char 8 = CHR ''8''"
  "digit_char 9 = CHR ''9''"
  by (simp_all add: digit_char_def)

lemma digit_char_digit: "d < 10 \<Longrightarrow> digit_char d \<in> set ''0123456789''"
  unfolding digit_char_def by (rule nth_mem) simp

lemma str_nat_digits: "str_nat n \<noteq> [] \<and> set (str_nat n) \<subseteq> set ''0123456789''"
proof (induction n rule: str_nat.induct)
  case (1 n)
  show ?case
  proof (cases "n < 10")
    case True
    then show ?thesis using digit_char_digit[of n] by (simp add: str_nat_small)
  next
    case False
    have "n mod 10 < 10" by simp
    from digit_char_digit[OF this] "1.IH"[OF False] False show ?thesis
      by (subst (1 2) str_nat.simps) simp
  qed
qed

lemma digit_value_digit_char: "d < 10 \<Longrightarrow> digit_value (digit_char d) = d"
proof -
  assume "d < 10"
  then have "d = 0 \<or> d = 1 \<or> d = 2 \<or> d = 3 \<or> d = 4 \<or> d = 5 \<or> d = 6 \<or> d = 7 \<or> d = 8 \<or> d = 9"
    by arith
  then show ?thesis by (auto simp: digit_value_def digit_chars)
qed

lemma digit_char_zero: "d < 10 \<Longrightarrow> digit_char d = CHR ''0'' \<Longrightarrow> d = 0"
proof -
  assume a: "d < 10" and b: "digit_char d = CHR ''0''"
  from a have "d = 0 \<or> d = 1 \<or> d = 2 \<or> d = 3 \<or> d = 4 \<or> d = 5 \<or> d = 6 \<or> d = 7 \<or> d = 8 \<or> d = 9"
    by arith
  with b show ?thesis by (auto simp: digit_chars)
qed

lemma decimal_value_snoc: "decimal_value (ds @ [c]) = 10 * decimal_value ds + digit_value c"
  by (simp add: decimal_value_def)

lemma decimal_value_str_nat: "decimal_value (str_nat n) = n"
proof (induction n rule: str_nat.induct)
  case (1 n)
  show ?case
  proof (cases "n < 10")
    case True
    then show ?thesis
      by (simp add: str_nat_small decimal_value_def digit_value_digit_char)
  next
    case False
    have "n mod 10 < 10" by simp
    then have "digit_value (digit_char (n mod 10)) = n mod 10" by (rule digit_value_digit_char)
    with "1.IH"[OF False] False show ?thesis
      by (subst str_nat.simps) (simp add: decimal_value_snoc)
  qed
qed

lemma str_nat_hd: "n \<noteq> 0 \<Longrightarrow> hd (str_nat n) \<noteq> CHR ''0''"
proof (induction n rule: str_nat.induct)
  case (1 n)
  show ?case
  proof (cases "n < 10")
    case True
    with "1.prems" digit_char_zero[of n] show ?thesis by (auto simp: str_nat_small)
  next
    case False
    then have "n div 10 \<noteq> 0" by simp
    with "1.IH"[OF False] have "hd (str_nat (n div 10)) \<noteq> CHR ''0''" by simp
    moreover have "str_nat (n div 10) \<noteq> []" using str_nat_digits by simp
    ultimately show ?thesis using False
      by (subst str_nat.simps) simp
  qed
qed

lemma numeral_of_str_nat: "numeral_of n (str_nat n)"
proof -
  have "hd (str_nat n) = CHR ''0'' \<longrightarrow> str_nat n = ''0''"
  proof (cases "n = 0")
    case True
    then show ?thesis by (simp add: str_nat_small digit_chars)
  next
    case False
    then show ?thesis using str_nat_hd by simp
  qed
  then show ?thesis
    using str_nat_digits[of n] decimal_value_str_nat[of n] by (simp add: numeral_of_def)
qed

lemma cumcount_from_length: "length (cumcount_from seen ts) = length ts"
  by (induction ts arbitrary: seen) (simp_all add: Let_def)

lemma cumcount_from_nth:
  "i < length ts \<Longrightarrow>
   cumcount_from seen ts ! i =
     (case seen (ts ! i) of None \<Rightarrow> 0 | Some k \<Rightarrow> k) + count_list (take i ts) (ts ! i)"
proof (induction ts arbitrary: seen i)
  case Nil
  then show ?case by simp
next
  case (Cons t ts)
  show ?case
  proof (cases i)
    case 0
    then show ?thesis by (simp add: Let_def)
  next
    case (Suc j)
    with Cons.prems have "j < length ts" by simp
    from Cons.IH[OF this] Suc show ?thesis
      by (auto simp: Let_def split: option.splits)
  qed
qed

lemma assign_identifiers_nth:
  assumes "i < length titles"
  shows "assign_identifiers titles ! i =
           titles ! i @ ''__'' @ str_nat (count_list (take i titles) (titles ! i))"
  using assms
  by (simp add: assign_identifiers_def cumcount_def cumcount_from_length cumcount_from_nth)

lemma count_list_take_unique:
  assumes "i < length xs" and "count_list xs (xs ! i) = 1"
  shows "count_list (take i xs) (xs ! i) = 0"
proof -
  have "xs = take i xs @ xs ! i # drop (Suc i) xs" using assms(1) by (rule id_take_nth_drop)
  then have "count_list xs (xs ! i) =
      count_list (take i xs) (xs ! i) + count_list (xs ! i # drop (Suc i) xs) (xs ! i)"
    by (metis count_list_append)
  with assms(2) show ?thesis by simp
qed

text \<open>
  Claim C10. The identifier of row \<open>i\<close> is its title, then \<open>__\<close>, then the decimal
  numeral of the number of rows before it that carry the same title: a string of digits
  without a leading zero that denotes that number. A title that occurs once gets
  \<open>__0\<close>, and no identifier is the bare title.
\<close>

theorem identifier_is_title_and_count:
  assumes "i < length titles"
  shows "length (assign_identifiers titles) = length titles \<and>
         (\<exists>d. assign_identifiers titles ! i = titles ! i @ ''__'' @ d \<and>
              numeral_of (count_list (take i titles) (titles ! i)) d) \<and>
         (count_list titles (titles ! i) = 1 \<longrightarrow>
            assign_identifiers titles ! i = titles ! i @ ''__0'') \<and>
         assign_identifiers titles ! i \<noteq> titles ! i"
proof -
  have "length (assign_identifiers titles) = length titles"
    by (simp add: assign_identifiers_def cumcount_def cumcount_from_length)
  moreover note n = assign_identifiers_nth[OF assms]
  moreover have "\<exists>d. assign_identifiers titles ! i = titles ! i @ ''__'' @ d \<and>
              numeral_of (count_list (take i titles) (titles ! i)) d"
    using n numeral_of_str_nat by blast
  moreover have "count_list titles (titles ! i) = 1 \<longrightarrow>
      assign_identifiers titles ! i = titles ! i @ ''__0''"
    using n count_list_take_unique[OF assms] by (simp add: str_nat_small digit_chars)
  moreover have "assign_identifiers titles ! i \<noteq> titles ! i"
    unfolding n by simp
  ultimately show ?thesis by blast
qed

text \<open>
  Witness for C10: in the catalog of thirteen rows the last \<open>X\<close> has eleven rows of its
  title before it and gets \<open>X__11\<close>, the third gets \<open>X__2\<close>, and \<open>Y\<close>, which
  occurs once, gets \<open>Y__0\<close>.
\<close>

theorem identifier_is_title_and_count_witness:
  "(12::nat) < length thirteen_titles \<and>
   count_list (take 12 thirteen_titles) (thirteen_titles ! 12) = 11 \<and>
   (\<exists>d. assign_identifiers thirteen_titles ! 12 = ''X__'' @ d \<and> numeral_of 11 d) \<and>
   assign_identifiers thirteen_titles =
     [''X__0'', ''X__1'', ''X__2'', ''Y__0'', ''X__3'', ''X__4'', ''X__5'', ''X__6'', ''X__7'',
      ''X__8'', ''X__9'', ''X__10'', ''X__11'']"
proof -
  have a: "(12::nat) < length thirteen_titles" by (simp add: thirteen_titles_def)
  have b: "count_list (take 12 thirteen_titles) (thirteen_titles ! 12) = 11"
    by (simp add: thirteen_titles_def)
  have c: "thirteen_titles ! 12 = ''X''" by (simp add: thirteen_titles_def)
  have s: "str_nat 10 = ''10''" "str_nat 11 = ''11''"
    by (simp_all add: str_nat.simps[of 10] str_nat.simps[of 11] str_nat_small digit_chars)
  have d: "assign_identifiers thirteen_titles =
     [''X__0'', ''X__1'', ''X__2'', ''Y__0'', ''X__3'', ''X__4'', ''X__5'', ''X__6'', ''X__7'',
      ''X__8'', ''X__9'', ''X__10'', ''X__11'']"
  proof -
    have cc: "cumcount thirteen_titles = [0, 1, 2, 0, 3, 4, 5, 6, 7, 8, 9, 10, 11]"
      by (simp add: cumcount_def thirteen_titles_def)
    show ?thesis
      unfolding assign_identifiers_def cc
      by (simp add: thirteen_titles_def s str_nat_small digit_chars)
  qed
  have "\<exists>d. assign_identifiers thirteen_titles ! 12 = ''X__'' @ d \<and> numeral_of 11 d"
  proof -
    have b': "count_list (take 12 thirteen_titles) ''X'' = 11"
      by (simp add: thirteen_titles_def)
    from identifier_is_title_and_count[OF a] show ?thesis
      unfolding c b' by simp
  qed
  with a b d show ?thesis by blast
qed

text \<open>
  Claim C7. When the first two rows that carry the title \<open>X\<close> are at the positions
  after \<open>pre\<close> and after \<open>mid\<close>, their identifiers are \<open>X__0\<close> and \<open>X__1\<close>, in
  that order, whatever the other rows are; the catalog of just the two rows gets exactly
  these two identifiers.
\<close>

theorem duplicate_titles_disambiguated:
  assumes "titles = pre @ [X] @ mid @ [X] @ post"
    and "X \<notin> set pre" and "X \<notin> set mid"
  shows "assign_identifiers titles ! length pre = X @ ''__0'' \<and>
         assign_identifiers titles ! (length pre + 1 + length mid) = X @ ''__1'' \<and>
         assign_identifiers [X, X] = [X @ ''__0'', X @ ''__1'']"
proof -
  have i: "length pre < length titles" and j: "length pre + 1 + length mid < length titles"
    using assms(1) by simp_all
  have ti: "titles ! length pre = X" using assms(1) by simp
  have tj: "titles ! (length pre + 1 + length mid) = X"
    using assms(1) by (simp add: nth_append)
  have ci: "count_list (take (length pre) titles) X = 0"
    using assms(1,2) by simp
  have "take (length pre + 1 + length mid) titles = pre @ [X] @ mid"
    using assms(1) by simp
  then have cj: "count_list (take (length pre + 1 + length mid) titles) X = 1"
    using assms(2,3) by simp
  have "assign_identifiers titles ! length pre = X @ ''__0''"
    using assign_identifiers_nth[OF i] ti ci by (simp add: str_nat_small digit_chars)
  moreover have "assign_identifiers titles ! (length pre + 1 + length mid) = X @ ''__1''"
    using assign_identifiers_nth[OF j] tj cj by (simp add: str_nat_small digit_chars)
  moreover have "assign_identifiers [X, X] = [X @ ''__0'', X @ ''__1'']"
    by (simp add: assign_identifiers_def cumcount_def str_nat_small digit_chars)
  ultimately show ?thesis by blast
qed

text \<open>Witness for C7: four rows, three of them titled \<open>X\<close>.\<close>

theorem duplicate_titles_disambiguated_witness:
  "[''X'', ''Y'', ''X'', ''X''] = [] @ [''X''] @ [''Y''] @ [''X''] @ [''X''] \<and>
   ''X'' \<notin> set ([] :: string list) \<and> ''X'' \<notin> set [''Y''] \<and>
   assign_identifiers [''X'', ''Y'', ''X'', ''X''] ! 0 = ''X__0'' \<and>
   assign_identifiers [''X'', ''Y'', ''X'', ''X''] ! 2 = ''X__1''"
proof -
  have a: "[''X'', ''Y'', ''X'', ''X''] = [] @ [''X''] @ [''Y''] @ [''X''] @ [''X'']" by simp
  have b: "''X'' \<notin> set ([] :: string list)" by simp
  have c: "''X'' \<notin> set [''Y'']" by simp
  have "assign_identifiers ([] @ [''X''] @ [''Y''] @ [''X''] @ [''X'']) ! length ([] :: string list) =
          ''X'' @ ''__0'' \<and>
        assign_identifiers ([] @ [''X''] @ [''Y''] @ [''X''] @ [''X'']) !
          (length ([] :: string list) + 1 + length [''Y'']) = ''X'' @ ''__1''"
    using duplicate_titles_disambiguated[OF a b c] unfolding a by blast
  then show ?thesis using b c by (simp add: numeral_2_eq_2)
qed

subsection \<open>Duration formatting\<close>














subsection \<open>The skip policy\<close>

text \<open>
  Claim C9. When the directory of a language exists and the policy is \<open>skip\<close>, the
  iteration for that language only prints that it skips the directory and adds the
  number of the language's videos to the progress count: no request to YouTube, no
  write to the file system, no change to the paths that exist, and no input read.
\<close>

theorem skip_existing_unit:
  assumes "path_join output_dir language \<in> exists_path w"
    and "select_language language video_data = Inr lang_videos"
  shows "process_language output_dir ''skip'' video_data language w =
           (Inr (), w\<lparr>stdout := stdout w @ [''Skipping '' @ path_join output_dir language],
                      progress := progress w + length lang_videos\<rparr>)"
  using assms by (simp add: process_language_def handle_existing_directory_def Let_def)

text \<open>Witness for C9: two of three videos are of the language whose directory exists.\<close>

theorem skip_existing_unit_witness:
  "path_join ''out'' ''ase'' \<in> exists_path example_yworld \<and>
   select_language ''ase'' example_videos = Inr [[''id1'', ''ase''], [''id3'', ''ase'']] \<and>
   process_language ''out'' ''skip'' example_videos ''ase'' example_yworld =
     (Inr (), example_yworld\<lparr>stdout := [''Skipping out/ase''], progress := 2\<rparr>) \<and>
   net_calls (snd (process_language ''out'' ''skip'' example_videos ''ase'' example_yworld)) = [] \<and>
   fs_ops (snd (process_language ''out'' ''skip'' example_videos ''ase'' example_yworld)) = []"
proof -
  have a: "path_join ''out'' ''ase'' \<in> exists_path example_yworld"
    by (simp add: path_join_def example_yworld_def)
  have b: "select_language ''ase'' example_videos = Inr [[''id1'', ''ase''], [''id3'', ''ase'']]"
    by (simp add: example_videos_def)
  have c: "path_join ''out'' ''ase'' = ''out/ase''" by (simp add: path_join_def)
  have d: "stdout example_yworld = []" "progress example_yworld = 0"
    "net_calls example_yworld = []" "fs_ops example_yworld = []"
    by (simp_all add: example_yworld_def)
  show ?thesis
    using a b skip_existing_unit[OF a b] by (simp add: c d)
qed

end
